theory Spec2Isabelle
  imports Main "HOL-Library.Word" "HOL-Library.Sublist"
begin

section \<open>The execution-watcher framework of livecodegit\<close>

text \<open>
  A shallow embedding of the Go packages \<^verbatim>\<open>watchers\<close>, \<^verbatim>\<open>watchers/common\<close>,
  \<^verbatim>\<open>watchers/sonicpi\<close> and \<^verbatim>\<open>watchers/tidal\<close>. A struct is a record, a method is a
  function that takes the receiver and returns it updated, a Go \<^verbatim>\<open>error\<close> result is an
  \<open>error option\<close> (\<open>None\<close> is \<^verbatim>\<open>nil\<close>). The mutexes only serialise the calls and are not
  part of the state: every function below is one call run on its own. A goroutine's loop
  is the function of one iteration (one tick, one datagram, one line), applied by whoever
  drives the model.

  A \<^verbatim>\<open>range\<close> over a Go map visits every key once in an order the runtime picks. The
  functions that range over a map take that order as their first argument, and the
  theorems hold for every order that enumerates the keys (\<open>map_range\<close>).
\<close>

subsection \<open>Errors, time, floating point numbers and strings\<close>

text \<open>An error value made by \<^verbatim>\<open>fmt.Errorf\<close> or given by the library is \<open>Errorf\<close> with its
  text. \<open>Panic\<close> marks a call that panicked: a function that gives it did not return.\<close>

datatype error = Errorf string | Panic string

text \<open>\<^verbatim>\<open>fmt.Errorf("msg: %w", err)\<close>: the message followed by the wrapped error's text.\<close>

fun error_text :: "error \<Rightarrow> string" where
  "error_text (Errorf s) = s"
| "error_text (Panic s) = s"

definition wrap :: "string \<Rightarrow> error \<Rightarrow> error" where
  "wrap msg e = Errorf (msg @ '': '' @ error_text e)"

text \<open>A \<^verbatim>\<open>time.Time\<close> is an instant in nanoseconds, the zero value of the type being
  \<open>0\<close>; \<^verbatim>\<open>t.After(u)\<close> is \<open>u < t\<close>. A \<^verbatim>\<open>time.Duration\<close> is a number of nanoseconds.\<close>

type_synonym Time = int
type_synonym Duration = int

definition After :: "Time \<Rightarrow> Time \<Rightarrow> bool" where
  "After t u = (u < t)"

text \<open>A \<^verbatim>\<open>float64\<close> is its 64 bits. Its arithmetic, parsing and printing are the
  platform's and come in as parameters; the constants of the source are written as bits.\<close>

type_synonym float64 = "64 word"

definition float64_120 :: float64 where "float64_120 = 0x405E000000000000"
definition float64_60 :: float64 where "float64_60 = 0x404E000000000000"
definition float64_4 :: float64 where "float64_4 = 0x4010000000000000"
definition float64_0_5625 :: float64 where "float64_0_5625 = 0x3FE2000000000000"

text \<open>One call that \<^verbatim>\<open>filepath.WalkDir\<close> makes to its function argument: the path, the
  error it reports for the path, and what \<^verbatim>\<open>d.Info()\<close> answers there (an error, or the
  file's modification time).\<close>

datatype WalkEntry = WalkEntry (we_path: string) (we_err: "error option") (we_info: "error + Time")

text \<open>What the Go library and the operating system answer. One value of this record is
  the environment's answers during one call of the model. \<open>PathExists p\<close> is false
  when \<^verbatim>\<open>os.Stat\<close> reports that \<open>p\<close> does not exist; \<open>WalkDir root\<close> is the sequence of
  calls the walk makes; a socket, a pipe and a process are numbers. The three regular
  expressions
  whose matches no property below depends on are fields as well:
  \<^verbatim>\<open>(?:cps|bps)\s*\(?\s*(\d+(?:\.\d+)?)\s*\)?\<close>, \<^verbatim>\<open>(?:bpm|BPM)[\s:=]*(\d+(?:\.\d+)?)\<close>
  and \<^verbatim>\<open>buffer[:\s]+(\w+)\<close>.\<close>

record stdlib =
  Now :: Time
  Sub :: "Time \<Rightarrow> Time \<Rightarrow> Duration"
  FormatTime :: "Time \<Rightarrow> string"
  TrimSpace :: "string \<Rightarrow> string"
  Split :: "string \<Rightarrow> string \<Rightarrow> string list"
  cpsRegex_FindStringSubmatch :: "string \<Rightarrow> string list"
  bpmRegex_FindStringSubmatch :: "string \<Rightarrow> string list"
  bufferRegex_FindStringSubmatch :: "string \<Rightarrow> string list"
  ParseFloat :: "string \<Rightarrow> error + float64"
  FormatFloat4 :: "float64 \<Rightarrow> string"
  fmul :: "float64 \<Rightarrow> float64 \<Rightarrow> float64"
  fdiv :: "float64 \<Rightarrow> float64 \<Rightarrow> float64"
  Seconds :: "Duration \<Rightarrow> float64"
  float_to_int64 :: "float64 \<Rightarrow> 64 word"
  DurationString :: "Duration \<Rightarrow> string"
  ResolveUDPAddr :: "string \<Rightarrow> error + string"
  ListenUDP :: "string \<Rightarrow> error + nat"
  CloseUDP :: "nat \<Rightarrow> error option"
  PathExists :: "string \<Rightarrow> bool"
  WalkDir :: "string \<Rightarrow> WalkEntry list"
  ReadFile :: "string \<Rightarrow> error + string"
  StdinPipe :: "string \<Rightarrow> error + nat"
  StdoutPipe :: "string \<Rightarrow> error + nat"
  StderrPipe :: "string \<Rightarrow> error + nat"
  StartProcess :: "string \<Rightarrow> error + nat"
  WriteFlush :: "nat \<Rightarrow> string \<Rightarrow> error option"

text \<open>\<^verbatim>\<open>strings.Contains\<close>, \<^verbatim>\<open>strings.HasPrefix\<close>, \<^verbatim>\<open>strings.HasSuffix\<close>. A Go string is
  a sequence of bytes, as a \<open>string\<close> here.\<close>

fun Contains :: "string \<Rightarrow> string \<Rightarrow> bool" where
  "Contains [] sub = (sub = [])"
| "Contains (c # cs) sub = (prefix sub (c # cs) \<or> Contains cs sub)"

definition HasPrefix :: "string \<Rightarrow> string \<Rightarrow> bool" where
  "HasPrefix s p = prefix p s"

definition HasSuffix :: "string \<Rightarrow> string \<Rightarrow> bool" where
  "HasSuffix s p = suffix p s"

text \<open>The character classes of Go's regular expressions: \<^verbatim>\<open>\d\<close> is an ASCII digit,
  \<^verbatim>\<open>\w\<close> an ASCII letter, digit or underscore. A byte of a multi-byte rune is neither.\<close>

definition byte :: "char \<Rightarrow> nat" where
  "byte c = of_char c"

definition isDigit :: "char \<Rightarrow> bool" where
  "isDigit c = (byte CHR ''0'' \<le> byte c \<and> byte c \<le> byte CHR ''9'')"

definition isWordChar :: "char \<Rightarrow> bool" where
  "isWordChar c = (isDigit c \<or> (byte CHR ''a'' \<le> byte c \<and> byte c \<le> byte CHR ''z'')
     \<or> (byte CHR ''A'' \<le> byte c \<and> byte c \<le> byte CHR ''Z'') \<or> c = CHR ''_'')"

text \<open>\<^verbatim>\<open>strconv.Itoa\<close>.\<close>

fun digit_char :: "nat \<Rightarrow> char" where
  "digit_char n = char_of (48 + n mod 10)"

function nat_digits :: "nat \<Rightarrow> string" where
  "nat_digits n = (if n < 10 then [digit_char n] else nat_digits (n div 10) @ [digit_char n])"
  by pat_completeness auto
termination
  by (relation "measure id") auto

definition Itoa :: "int \<Rightarrow> string" where
  "Itoa i = (if i < 0 then CHR ''-'' # nat_digits (nat (- i)) else nat_digits (nat i))"

text \<open>An enumeration of the keys of a map: what a \<^verbatim>\<open>range\<close> over it may visit.\<close>

definition map_range :: "('k \<rightharpoonup> 'v) \<Rightarrow> 'k list \<Rightarrow> bool" where
  "map_range m order = (distinct order \<and> set order = dom m)"

subsection \<open>Package common: the event and the watcher configuration\<close>

record WatcherConfig =
  cfg_Language :: string
  cfg_Environment :: string
  Enabled :: bool
  Options :: "string \<rightharpoonup> string"

record ExecutionEvent =
  Timestamp :: Time
  Content :: string
  Buffer :: string
  Language :: string
  Environment :: string
  Success :: bool
  ErrorMessage :: string
  BPM :: float64
  BeatsFromStart :: "64 word"
  FilePath :: string
  LineNumber :: int
  ProcessID :: int
  ExtraData :: "string \<rightharpoonup> string"

record ExecutionMetadata =
  md_Buffer :: string
  md_Language :: string
  md_BPM :: float64
  md_BeatsFromStart :: "64 word"
  md_Success :: bool
  md_ErrorMessage :: string
  md_Environment :: string

definition ToExecutionMetadata :: "ExecutionEvent \<Rightarrow> ExecutionMetadata" where
  "ToExecutionMetadata event =
     \<lparr>md_Buffer = Buffer event, md_Language = Language event, md_BPM = BPM event,
      md_BeatsFromStart = BeatsFromStart event, md_Success = Success event,
      md_ErrorMessage = ErrorMessage event, md_Environment = Environment event\<rparr>"

text \<open>A Go map read \<^verbatim>\<open>m[k]\<close> gives the zero value for a missing key.\<close>

definition option_or_empty :: "string option \<Rightarrow> string" where
  "option_or_empty v = (case v of None \<Rightarrow> [] | Some s \<Rightarrow> s)"

subsection \<open>Package tidal: the GHCi watcher\<close>

record 'cb GHCiWatcher =
  ghci_config :: WatcherConfig
  ghci_running :: bool
  ghci_callback :: "'cb option"
  ghci_cmd :: "string option"
  ghci_process :: "nat option"
  ghci_stdin :: "nat option"
  ghci_stdout :: "nat option"
  ghci_stderr :: "nat option"
  currentCPS :: float64
  ghci_startTime :: Time
  connections :: "string \<rightharpoonup> string"
  lastPatterns :: "string \<rightharpoonup> string"

definition NewGHCiWatcher :: "'cb GHCiWatcher" where
  "NewGHCiWatcher =
     \<lparr>ghci_config = \<lparr>cfg_Language = ''tidal'', cfg_Environment = ''tidal-cycles'',
        Enabled = True,
        Options = [''ghci_command'' \<mapsto> ''ghci'', ''boot_file'' \<mapsto> ''BootTidal.hs'']\<rparr>,
      ghci_running = False, ghci_callback = None, ghci_cmd = None, ghci_process = None,
      ghci_stdin = None, ghci_stdout = None, ghci_stderr = None,
      currentCPS = float64_0_5625, ghci_startTime = 0,
      connections = Map.empty, lastPatterns = Map.empty\<rparr>"

text \<open>The regular expression \<^verbatim>\<open>\b(d\d+)\b\<close> of \<^verbatim>\<open>extractConnection\<close>. A match starts
  at a \<^verbatim>\<open>d\<close> that no word character precedes, takes every digit that follows (one at
  least), and ends where no word character follows: a shorter run of digits would end
  before a digit, which is no word boundary. \<open>connectionRegex_scan prev s\<close> is the
  leftmost match in \<open>s\<close>; \<open>prev\<close> says whether a word character precedes \<open>s\<close>.
  \<^verbatim>\<open>FindStringSubmatch\<close> gives the match and its one group, which are the same text,
  or \<^verbatim>\<open>nil\<close>.\<close>

fun connectionRegex_scan :: "bool \<Rightarrow> string \<Rightarrow> string option" where
  "connectionRegex_scan prev [] = None"
| "connectionRegex_scan prev (c # cs) =
     (if \<not> prev \<and> c = CHR ''d'' \<and> takeWhile isDigit cs \<noteq> []
         \<and> (case dropWhile isDigit cs of [] \<Rightarrow> True | x # _ \<Rightarrow> \<not> isWordChar x)
      then Some (c # takeWhile isDigit cs)
      else connectionRegex_scan (isWordChar c) cs)"

definition connectionRegex_FindStringSubmatch :: "string \<Rightarrow> string list" where
  "connectionRegex_FindStringSubmatch content =
     (case connectionRegex_scan False content of None \<Rightarrow> [] | Some m \<Rightarrow> [m, m])"

definition extractConnection :: "string \<Rightarrow> string" where
  "extractConnection content =
     (let matches = connectionRegex_FindStringSubmatch content in
      if length matches > 1 then matches ! 1
      else if Contains content ''hush'' then ''all''
      else ''unknown'')"

text \<open>What the regular expression says, without the scan: the text splits around a
  \<^verbatim>\<open>d\<close> and a run of digits with a word boundary on both sides.\<close>

definition connection_match :: "string \<Rightarrow> string \<Rightarrow> string \<Rightarrow> string \<Rightarrow> bool" where
  "connection_match pre ds post s =
     (s = pre @ CHR ''d'' # ds @ post \<and> ds \<noteq> [] \<and> list_all isDigit ds
      \<and> (pre = [] \<or> \<not> isWordChar (last pre))
      \<and> (post = [] \<or> \<not> isWordChar (hd post)))"

text \<open>The word boundary in front of a match, for a text that continues another one.\<close>

definition boundary_before :: "bool \<Rightarrow> string \<Rightarrow> bool" where
  "boundary_before prev pre = (if pre = [] then \<not> prev else \<not> isWordChar (last pre))"

text \<open>The leftmost such split: no other one starts earlier.\<close>

definition first_connection_match :: "string \<Rightarrow> string \<Rightarrow> string \<Rightarrow> string \<Rightarrow> bool" where
  "first_connection_match pre ds post s =
     (connection_match pre ds post s
      \<and> (\<forall>p2 d2 q2. connection_match p2 d2 q2 s \<longrightarrow> length pre \<le> length p2))"

text \<open>\<^verbatim>\<open>Start\<close>. The subprocess is the command's name (\<open>ghci_cmd\<close>, \<^verbatim>\<open>w.cmd\<close>) and its
  process once started (\<open>ghci_process\<close>, \<^verbatim>\<open>w.cmd.Process\<close>); a pipe is a number.\<close>

definition GHCiWatcher_Start ::
  "stdlib \<Rightarrow> 'cb option \<Rightarrow> 'cb GHCiWatcher \<Rightarrow> error option \<times> 'cb GHCiWatcher" where
  "GHCiWatcher_Start sys callback w =
     (if ghci_running w then (Some (Errorf ''GHCi watcher is already running''), w)
      else
        let ghciCmd = option_or_empty (Options (ghci_config w) ''ghci_command'');
            w1 = w\<lparr>ghci_callback := callback, ghci_startTime := Now sys,
                   ghci_cmd := Some ghciCmd, ghci_process := None\<rparr>
        in case StdinPipe sys ghciCmd of
             Inl err \<Rightarrow> (Some (wrap ''failed to create stdin pipe'' err), w1)
           | Inr stdin \<Rightarrow>
         (case StdoutPipe sys ghciCmd of
             Inl err \<Rightarrow> (Some (wrap ''failed to create stdout pipe'' err), w1)
           | Inr stdout \<Rightarrow>
         (case StderrPipe sys ghciCmd of
             Inl err \<Rightarrow> (Some (wrap ''failed to create stderr pipe'' err), w1)
           | Inr stderr \<Rightarrow>
             let w2 = w1\<lparr>ghci_stdin := Some stdin, ghci_stdout := Some stdout,
                         ghci_stderr := Some stderr\<rparr>
             in (case StartProcess sys ghciCmd of
                   Inl err \<Rightarrow> (Some (wrap ''failed to start GHCi'' err), w2)
                 | Inr pid \<Rightarrow> (None, w2\<lparr>ghci_process := Some pid, ghci_running := True\<rparr>)))))"

text \<open>\<^verbatim>\<open>Stop\<close> writes the quit command and kills the process; of the struct it changes
  the running flag only, and it returns \<^verbatim>\<open>nil\<close> on every path.\<close>

definition GHCiWatcher_Stop :: "'cb GHCiWatcher \<Rightarrow> error option \<times> 'cb GHCiWatcher" where
  "GHCiWatcher_Stop w =
     (if \<not> ghci_running w then (None, w) else (None, w\<lparr>ghci_running := False\<rparr>))"

definition GHCiWatcher_IsRunning :: "'cb GHCiWatcher \<Rightarrow> bool" where
  "GHCiWatcher_IsRunning w = ghci_running w"

definition GHCiWatcher_GetConfig :: "'cb GHCiWatcher \<Rightarrow> WatcherConfig" where
  "GHCiWatcher_GetConfig w = ghci_config w"

definition sendCommand :: "stdlib \<Rightarrow> string \<Rightarrow> 'cb GHCiWatcher \<Rightarrow> error option" where
  "sendCommand sys command w =
     (case ghci_stdin w of
        None \<Rightarrow> Some (Errorf ''GHCi stdin not available'')
      | Some pipe \<Rightarrow> WriteFlush sys pipe (command @ [CHR 0x0A]))"

definition ExecutePattern :: "stdlib \<Rightarrow> string \<Rightarrow> 'cb GHCiWatcher \<Rightarrow> error option" where
  "ExecutePattern sys pattern w =
     (if \<not> GHCiWatcher_IsRunning w then Some (Errorf ''watcher is not running'')
      else sendCommand sys pattern w)"

definition Hush :: "stdlib \<Rightarrow> 'cb GHCiWatcher \<Rightarrow> error option" where
  "Hush sys w = ExecutePattern sys ''hush'' w"

definition GetActivePatterns :: "'cb GHCiWatcher \<Rightarrow> (string \<rightharpoonup> string)" where
  "GetActivePatterns w = lastPatterns w"

definition isPatternEvaluation :: "string \<Rightarrow> bool" where
  "isPatternEvaluation line =
     list_ex (Contains line)
       [''d1 $'', ''d2 $'', ''d3 $'', ''d4 $'', ''d5 $'', ''d6 $'', ''d7 $'', ''d8 $'',
        ''d9 $'', ''hush'', ''silence'']"

definition isCPSChange :: "string \<Rightarrow> bool" where
  "isCPSChange line = (Contains line ''cps'' \<or> Contains line ''bps'')"

definition updateCPS :: "stdlib \<Rightarrow> string \<Rightarrow> 'cb GHCiWatcher \<Rightarrow> 'cb GHCiWatcher" where
  "updateCPS sys line w =
     (let matches = cpsRegex_FindStringSubmatch sys line in
      if length matches > 1 then
        (case ParseFloat sys (matches ! 1) of
           Inl err \<Rightarrow> w
         | Inr cps \<Rightarrow>
             w\<lparr>currentCPS := (if Contains line ''bps'' then fdiv sys cps float64_4 else cps)\<rparr>)
      else w)"

definition calculateCyclesFromStart :: "stdlib \<Rightarrow> 'cb GHCiWatcher \<Rightarrow> Time \<Rightarrow> float64" where
  "calculateCyclesFromStart sys w timestamp =
     fmul sys (Seconds sys (Sub sys timestamp (ghci_startTime w))) (currentCPS w)"

definition createPatternExecutionEvent ::
  "stdlib \<Rightarrow> string \<Rightarrow> bool \<Rightarrow> string \<Rightarrow> 'cb GHCiWatcher
     \<Rightarrow> ExecutionEvent \<times> 'cb GHCiWatcher" where
  "createPatternExecutionEvent sys content success errorMessage w =
     (let now = Now sys;
          connection = extractConnection content;
          cyclesFromStart = calculateCyclesFromStart sys w now;
          w' = (if success \<and> connection \<noteq> []
                then w\<lparr>lastPatterns := (lastPatterns w)(connection \<mapsto> content)\<rparr> else w)
      in (\<lparr>Timestamp = now, Content = content, Buffer = connection, Language = ''tidal'',
           Environment = ''tidal-cycles'', Success = success, ErrorMessage = errorMessage,
           BPM = fmul sys (currentCPS w) float64_60,
           BeatsFromStart = float_to_int64 sys (fmul sys cyclesFromStart float64_4),
           FilePath = [], LineNumber = 0, ProcessID = 0,
           ExtraData = [''connection'' \<mapsto> connection,
                        ''cps'' \<mapsto> FormatFloat4 sys (currentCPS w)]\<rparr>, w'))"

text \<open>One line of the subprocess's standard output, and one of its standard error: the
  events handed to the callback, and the watcher afterwards.\<close>

definition processOutputLine ::
  "stdlib \<Rightarrow> string \<Rightarrow> 'cb GHCiWatcher \<Rightarrow> ExecutionEvent list \<times> 'cb GHCiWatcher" where
  "processOutputLine sys line0 w =
     (let line = TrimSpace sys line0 in
      if line = [] \<or> HasPrefix line ''tidal>'' then ([], w)
      else
        let (events, w1) =
              (if isPatternEvaluation line then
                 (let (event, w') = createPatternExecutionEvent sys line True [] w
                  in (if ghci_callback w \<noteq> None then [event] else [], w'))
               else ([], w));
            w2 = (if isCPSChange line then updateCPS sys line w1 else w1)
        in (events, w2))"

definition processErrorLine ::
  "stdlib \<Rightarrow> string \<Rightarrow> 'cb GHCiWatcher \<Rightarrow> ExecutionEvent list \<times> 'cb GHCiWatcher" where
  "processErrorLine sys line0 w =
     (let line = TrimSpace sys line0 in
      if line = [] then ([], w)
      else
        let (event, w') = createPatternExecutionEvent sys line False line w
        in (if ghci_callback w \<noteq> None then [event] else [], w'))"

subsection \<open>Package sonicpi: the OSC listener\<close>

record 'cb OSCWatcher =
  osc_config :: WatcherConfig
  osc_conn :: "nat option"
  osc_running :: bool
  osc_callback :: "'cb option"
  oscPort :: int
  osc_workspacePath :: string
  currentBPM :: float64
  osc_startTime :: Time

definition NewOSCWatcher :: "int \<Rightarrow> string \<Rightarrow> 'cb OSCWatcher" where
  "NewOSCWatcher port workspacePath =
     \<lparr>osc_config = \<lparr>cfg_Language = ''sonicpi'', cfg_Environment = ''sonic-pi'',
        Enabled = True,
        Options = [''osc_port'' \<mapsto> Itoa port, ''workspace_path'' \<mapsto> workspacePath]\<rparr>,
      osc_conn = None, osc_running = False, osc_callback = None, oscPort = port,
      osc_workspacePath = workspacePath, currentBPM = float64_120, osc_startTime = 0\<rparr>"

definition OSCWatcher_Start ::
  "stdlib \<Rightarrow> 'cb option \<Rightarrow> 'cb OSCWatcher \<Rightarrow> error option \<times> 'cb OSCWatcher" where
  "OSCWatcher_Start sys callback w =
     (if osc_running w then (Some (Errorf ''watcher is already running''), w)
      else
        let w1 = w\<lparr>osc_callback := callback, osc_startTime := Now sys\<rparr>
        in case ResolveUDPAddr sys ('':'' @ Itoa (oscPort w)) of
             Inl err \<Rightarrow> (Some (wrap ''failed to resolve UDP address'' err), w1)
           | Inr addr \<Rightarrow>
               (case ListenUDP sys addr of
                  Inl err \<Rightarrow>
                    (Some (wrap (''failed to listen on UDP port '' @ Itoa (oscPort w)) err), w1)
                | Inr conn \<Rightarrow> (None, w1\<lparr>osc_conn := Some conn, osc_running := True\<rparr>)))"

definition OSCWatcher_Stop ::
  "stdlib \<Rightarrow> 'cb OSCWatcher \<Rightarrow> error option \<times> 'cb OSCWatcher" where
  "OSCWatcher_Stop sys w =
     (if \<not> osc_running w then (None, w)
      else
        let w1 = w\<lparr>osc_running := False\<rparr>
        in case osc_conn w1 of None \<Rightarrow> (None, w1) | Some conn \<Rightarrow> (CloseUDP sys conn, w1))"

definition OSCWatcher_IsRunning :: "'cb OSCWatcher \<Rightarrow> bool" where
  "OSCWatcher_IsRunning w = osc_running w"

definition OSCWatcher_GetConfig :: "'cb OSCWatcher \<Rightarrow> WatcherConfig" where
  "OSCWatcher_GetConfig w = osc_config w"

definition isExecutionMessage :: "string \<Rightarrow> bool" where
  "isExecutionMessage message =
     list_ex (Contains message)
       [''/run-code'', ''/stop-all'', ''/start-recording'', ''/buffer-update'']"

definition isBPMMessage :: "string \<Rightarrow> bool" where
  "isBPMMessage message = (Contains message ''/bpm'' \<or> Contains message ''use_bpm'')"

definition updateBPM :: "stdlib \<Rightarrow> string \<Rightarrow> 'cb OSCWatcher \<Rightarrow> 'cb OSCWatcher" where
  "updateBPM sys message w =
     (let matches = bpmRegex_FindStringSubmatch sys message in
      if length matches > 1 then
        (case ParseFloat sys (matches ! 1) of
           Inl err \<Rightarrow> w
         | Inr bpm \<Rightarrow> w\<lparr>currentBPM := bpm\<rparr>)
      else w)"

definition extractErrorMessage :: "stdlib \<Rightarrow> string \<Rightarrow> string" where
  "extractErrorMessage sys message =
     (if Contains message ''/error'' then
        (let parts = Split sys message ''/error'' in
         if length parts > 1 then TrimSpace sys (parts ! 1) else ''Unknown error'')
      else ''Unknown error'')"

definition calculateBeatsFromStart :: "stdlib \<Rightarrow> 'cb OSCWatcher \<Rightarrow> Time \<Rightarrow> 64 word" where
  "calculateBeatsFromStart sys w timestamp =
     float_to_int64 sys
       (fmul sys (Seconds sys (Sub sys timestamp (osc_startTime w)))
          (fdiv sys (currentBPM w) float64_60))"

definition readBufferContent :: "stdlib \<Rightarrow> 'cb OSCWatcher \<Rightarrow> string \<Rightarrow> string" where
  "readBufferContent sys w bufferName =
     (if osc_workspacePath w = [] then
        ''# Code executed in buffer: '' @ bufferName @ [CHR 0x0A]
          @ ''# (content not available without workspace path)''
      else ''# Executed at '' @ FormatTime sys (Now sys) @ [CHR 0x0A] @ ''# Buffer: ''
          @ bufferName)"

definition parseExecutionEvent :: "stdlib \<Rightarrow> 'cb OSCWatcher \<Rightarrow> string \<Rightarrow> ExecutionEvent" where
  "parseExecutionEvent sys w message =
     (let now = Now sys;
          matches = bufferRegex_FindStringSubmatch sys message;
          buffer = (if length matches > 1 then matches ! 1 else ''workspace-0'');
          success = (\<not> Contains message ''/error'');
          errorMessage = (if \<not> success then extractErrorMessage sys message else [])
      in \<lparr>Timestamp = now, Content = readBufferContent sys w buffer, Buffer = buffer,
          Language = ''sonicpi'', Environment = ''sonic-pi'', Success = success,
          ErrorMessage = errorMessage, BPM = currentBPM w,
          BeatsFromStart = calculateBeatsFromStart sys w now,
          FilePath = [], LineNumber = 0, ProcessID = 0,
          ExtraData = [''osc_message'' \<mapsto> message]\<rparr>)"

text \<open>\<^verbatim>\<open>processOSCMessage\<close>: the loop over the lines of one datagram.\<close>

fun processOSCLines ::
  "stdlib \<Rightarrow> string list \<Rightarrow> 'cb OSCWatcher \<Rightarrow> ExecutionEvent list \<times> 'cb OSCWatcher" where
  "processOSCLines sys [] w = ([], w)"
| "processOSCLines sys (l # ls) w =
     (let line = TrimSpace sys l in
      if line = [] then processOSCLines sys ls w
      else if isExecutionMessage line then
        (let event = parseExecutionEvent sys w line;
             (events, w') = processOSCLines sys ls w
         in ((if osc_callback w \<noteq> None then [event] else []) @ events, w'))
      else if isBPMMessage line then processOSCLines sys ls (updateBPM sys line w)
      else processOSCLines sys ls w)"

definition processOSCMessage ::
  "stdlib \<Rightarrow> string \<Rightarrow> 'cb OSCWatcher \<Rightarrow> ExecutionEvent list \<times> 'cb OSCWatcher" where
  "processOSCMessage sys message w = processOSCLines sys (Split sys message [CHR 0x0A]) w"

subsection \<open>Package sonicpi: the file poller\<close>

datatype chan = ChanOpen | ChanClosed

record 'cb FileWatcher =
  fw_config :: WatcherConfig
  fw_workspacePath :: string
  fw_running :: bool
  fw_callback :: "'cb option"
  lastModified :: "string \<rightharpoonup> Time"
  stopChan :: "chan option"
  pollInterval :: Duration

definition NewFileWatcher :: "string \<Rightarrow> 'cb FileWatcher" where
  "NewFileWatcher workspacePath =
     \<lparr>fw_config = \<lparr>cfg_Language = ''sonicpi'', cfg_Environment = ''sonic-pi-files'',
        Enabled = True,
        Options = [''workspace_path'' \<mapsto> workspacePath, ''poll_interval'' \<mapsto> ''1s'']\<rparr>,
      fw_workspacePath = workspacePath, fw_running = False, fw_callback = None,
      lastModified = Map.empty, stopChan = None, pollInterval = 1000000000\<rparr>"

text \<open>\<^verbatim>\<open>filepath.Base\<close> and \<^verbatim>\<open>filepath.Ext\<close> with \<^verbatim>\<open>/\<close> as the separator.\<close>

definition Base :: "string \<Rightarrow> string" where
  "Base path =
     (if path = [] then ''.''
      else
        let stripped = rev (dropWhile (\<lambda>c. c = CHR ''/'') (rev path));
            name = rev (takeWhile (\<lambda>c. c \<noteq> CHR ''/'') (rev stripped))
        in if name = [] then ''/'' else name)"

definition Ext :: "string \<Rightarrow> string" where
  "Ext path =
     (let r = takeWhile (\<lambda>c. c \<noteq> CHR ''/'') (rev path) in
      if CHR ''.'' \<in> set r then CHR ''.'' # rev (takeWhile (\<lambda>c. c \<noteq> CHR ''.'') r) else [])"

text \<open>The patterns \<^verbatim>\<open>^workspace_\d+$\<close> and \<^verbatim>\<open>^buffer_\d+$\<close>: the prefix, then digits (one
  at least) up to the end. The patterns \<^verbatim>\<open>\.rb$\<close> and \<^verbatim>\<open>\.sonic$\<close>: the name ends so.\<close>

definition matches_prefix_digits :: "string \<Rightarrow> string \<Rightarrow> bool" where
  "matches_prefix_digits pfx name =
     (prefix pfx name \<and> drop (length pfx) name \<noteq> []
      \<and> list_all isDigit (drop (length pfx) name))"

definition isSonicPiFile :: "string \<Rightarrow> bool" where
  "isSonicPiFile path =
     (let name = Base path in
      matches_prefix_digits ''workspace_'' name \<or> matches_prefix_digits ''buffer_'' name
      \<or> HasSuffix name ''.rb'' \<or> HasSuffix name ''.sonic'')"

definition extractBufferName :: "string \<Rightarrow> string" where
  "extractBufferName fileName =
     (if matches_prefix_digits ''workspace_'' fileName then fileName
      else if matches_prefix_digits ''buffer_'' fileName then fileName
      else if Ext fileName = ''.rb'' then take (length fileName - 3) fileName
      else fileName)"

definition createExecutionEvent :: "stdlib \<Rightarrow> string \<Rightarrow> Time \<Rightarrow> ExecutionEvent" where
  "createExecutionEvent sys filePath modTime =
     (let (contentStr, success, errorMessage) =
            (case ReadFile sys filePath of
               Inl err \<Rightarrow> (''# Error reading file: '' @ filePath, False,
                            ''Failed to read file: '' @ error_text err)
             | Inr content \<Rightarrow> (content, True, []));
          fileName = Base filePath;
          buffer = extractBufferName fileName
      in \<lparr>Timestamp = modTime, Content = contentStr, Buffer = buffer, Language = ''sonicpi'',
          Environment = ''sonic-pi-files'', Success = success, ErrorMessage = errorMessage,
          BPM = 0, BeatsFromStart = 0, FilePath = filePath, LineNumber = 0, ProcessID = 0,
          ExtraData = [''file_name'' \<mapsto> fileName, ''trigger_type'' \<mapsto> ''file_change'']\<rparr>)"

text \<open>\<^verbatim>\<open>scanWorkspaceFiles\<close>: the function given to \<^verbatim>\<open>WalkDir\<close>, then the walk.\<close>

definition scan_visit :: "WalkEntry \<Rightarrow> 'cb FileWatcher \<Rightarrow> 'cb FileWatcher" where
  "scan_visit e w =
     (if we_err e \<noteq> None then w
      else if isSonicPiFile (we_path e) then
        (case we_info e of
           Inl err \<Rightarrow> w
         | Inr modTime \<Rightarrow> w\<lparr>lastModified := (lastModified w)(we_path e \<mapsto> modTime)\<rparr>)
      else w)"

fun scan_walk :: "WalkEntry list \<Rightarrow> 'cb FileWatcher \<Rightarrow> 'cb FileWatcher" where
  "scan_walk [] w = w"
| "scan_walk (e # es) w = scan_walk es (scan_visit e w)"

definition scanWorkspaceFiles :: "stdlib \<Rightarrow> 'cb FileWatcher \<Rightarrow> 'cb FileWatcher" where
  "scanWorkspaceFiles sys w = scan_walk (WalkDir sys (fw_workspacePath w)) w"

text \<open>\<^verbatim>\<open>checkForChanges\<close>: the function given to \<^verbatim>\<open>WalkDir\<close> gives the events it hands to
  the callback (none or one) and the watcher afterwards; then the walk, one tick.\<close>

definition check_visit ::
  "stdlib \<Rightarrow> WalkEntry \<Rightarrow> 'cb FileWatcher \<Rightarrow> ExecutionEvent list \<times> 'cb FileWatcher" where
  "check_visit sys e w =
     (if we_err e \<noteq> None then ([], w)
      else if \<not> isSonicPiFile (we_path e) then ([], w)
      else
        (case we_info e of
           Inl err \<Rightarrow> ([], w)
         | Inr currentModTime \<Rightarrow>
             (case lastModified w (we_path e) of
                None \<Rightarrow>
                  ([], w\<lparr>lastModified := (lastModified w)(we_path e \<mapsto> currentModTime)\<rparr>)
              | Some lastModTime \<Rightarrow>
                  if After currentModTime lastModTime then
                    (let w' = w\<lparr>lastModified :=
                                 (lastModified w)(we_path e \<mapsto> currentModTime)\<rparr>;
                         event = createExecutionEvent sys (we_path e) currentModTime
                     in (if fw_callback w' \<noteq> None then [event] else [], w'))
                  else ([], w))))"

fun check_walk ::
  "stdlib \<Rightarrow> WalkEntry list \<Rightarrow> 'cb FileWatcher \<Rightarrow> ExecutionEvent list \<times> 'cb FileWatcher" where
  "check_walk sys [] w = ([], w)"
| "check_walk sys (e # es) w =
     (let (events1, w1) = check_visit sys e w;
          (events2, w2) = check_walk sys es w1
      in (events1 @ events2, w2))"

definition checkForChanges ::
  "stdlib \<Rightarrow> 'cb FileWatcher \<Rightarrow> ExecutionEvent list \<times> 'cb FileWatcher" where
  "checkForChanges sys w = check_walk sys (WalkDir sys (fw_workspacePath w)) w"

definition FileWatcher_Start ::
  "stdlib \<Rightarrow> 'cb option \<Rightarrow> 'cb FileWatcher \<Rightarrow> error option \<times> 'cb FileWatcher" where
  "FileWatcher_Start sys callback w =
     (if fw_running w then (Some (Errorf ''file watcher is already running''), w)
      else if \<not> PathExists sys (fw_workspacePath w) then
        (Some (Errorf (''workspace path does not exist: '' @ fw_workspacePath w)), w)
      else
        (None, scanWorkspaceFiles sys
                 (w\<lparr>fw_callback := callback, fw_running := True, stopChan := Some ChanOpen\<rparr>)))"

text \<open>\<^verbatim>\<open>Stop\<close> closes the channel that ends the polling goroutine. Closing a \<^verbatim>\<open>nil\<close> or a
  closed channel panics; by \<open>reachable_inv\<close> below, a running watcher built by
  \<^verbatim>\<open>NewFileWatcher\<close> has an open channel and never gets there.\<close>

definition FileWatcher_Stop :: "'cb FileWatcher \<Rightarrow> error option \<times> 'cb FileWatcher" where
  "FileWatcher_Stop w =
     (if \<not> fw_running w then (None, w)
      else
        let w1 = w\<lparr>fw_running := False\<rparr>
        in case stopChan w1 of
             None \<Rightarrow> (Some (Panic ''close of nil channel''), w1)
           | Some ChanClosed \<Rightarrow> (Some (Panic ''close of closed channel''), w1)
           | Some ChanOpen \<Rightarrow> (None, w1\<lparr>stopChan := Some ChanClosed\<rparr>))"

definition FileWatcher_IsRunning :: "'cb FileWatcher \<Rightarrow> bool" where
  "FileWatcher_IsRunning w = fw_running w"

definition FileWatcher_GetConfig :: "'cb FileWatcher \<Rightarrow> WatcherConfig" where
  "FileWatcher_GetConfig w = fw_config w"

definition SetPollInterval :: "stdlib \<Rightarrow> Duration \<Rightarrow> 'cb FileWatcher \<Rightarrow> 'cb FileWatcher" where
  "SetPollInterval sys interval w =
     w\<lparr>pollInterval := interval,
       fw_config := (fw_config w)\<lparr>Options :=
          (Options (fw_config w))(''poll_interval'' \<mapsto> DurationString sys interval)\<rparr>\<rparr>"

subsection \<open>The watcher interface and the three implementations\<close>

text \<open>The interface \<^verbatim>\<open>ExecutionWatcher\<close>: the methods of a watcher of type \<open>'w\<close>. A method
  that changes its receiver returns it.\<close>

record ('w, 'cb) ExecutionWatcher =
  Start :: "'cb option \<Rightarrow> 'w \<Rightarrow> error option \<times> 'w"
  Stop :: "'w \<Rightarrow> error option \<times> 'w"
  IsRunning :: "'w \<Rightarrow> bool"
  GetConfig :: "'w \<Rightarrow> WatcherConfig"
  GetLanguage :: "'w \<Rightarrow> string"
  GetEnvironment :: "'w \<Rightarrow> string"

datatype 'cb watcher =
    OSC "'cb OSCWatcher"
  | Files "'cb FileWatcher"
  | GHCi "'cb GHCiWatcher"

fun watcher_Start :: "stdlib \<Rightarrow> 'cb option \<Rightarrow> 'cb watcher \<Rightarrow> error option \<times> 'cb watcher" where
  "watcher_Start sys callback (OSC w) = map_prod id OSC (OSCWatcher_Start sys callback w)"
| "watcher_Start sys callback (Files w) = map_prod id Files (FileWatcher_Start sys callback w)"
| "watcher_Start sys callback (GHCi w) = map_prod id GHCi (GHCiWatcher_Start sys callback w)"

fun watcher_Stop :: "stdlib \<Rightarrow> 'cb watcher \<Rightarrow> error option \<times> 'cb watcher" where
  "watcher_Stop sys (OSC w) = map_prod id OSC (OSCWatcher_Stop sys w)"
| "watcher_Stop sys (Files w) = map_prod id Files (FileWatcher_Stop w)"
| "watcher_Stop sys (GHCi w) = map_prod id GHCi (GHCiWatcher_Stop w)"

fun watcher_IsRunning :: "'cb watcher \<Rightarrow> bool" where
  "watcher_IsRunning (OSC w) = OSCWatcher_IsRunning w"
| "watcher_IsRunning (Files w) = FileWatcher_IsRunning w"
| "watcher_IsRunning (GHCi w) = GHCiWatcher_IsRunning w"

fun watcher_GetConfig :: "'cb watcher \<Rightarrow> WatcherConfig" where
  "watcher_GetConfig (OSC w) = OSCWatcher_GetConfig w"
| "watcher_GetConfig (Files w) = FileWatcher_GetConfig w"
| "watcher_GetConfig (GHCi w) = GHCiWatcher_GetConfig w"

fun watcher_GetLanguage :: "'cb watcher \<Rightarrow> string" where
  "watcher_GetLanguage (OSC w) = ''sonicpi''"
| "watcher_GetLanguage (Files w) = ''sonicpi''"
| "watcher_GetLanguage (GHCi w) = ''tidal''"

fun watcher_GetEnvironment :: "'cb watcher \<Rightarrow> string" where
  "watcher_GetEnvironment (OSC w) = ''sonic-pi''"
| "watcher_GetEnvironment (Files w) = ''sonic-pi-files''"
| "watcher_GetEnvironment (GHCi w) = ''tidal-cycles''"

definition concrete :: "stdlib \<Rightarrow> ('cb watcher, 'cb) ExecutionWatcher" where
  "concrete sys =
     \<lparr>Start = watcher_Start sys, Stop = watcher_Stop sys, IsRunning = watcher_IsRunning,
      GetConfig = watcher_GetConfig, GetLanguage = watcher_GetLanguage,
      GetEnvironment = watcher_GetEnvironment\<rparr>"

text \<open>What can happen to a watcher after its constructor: a call of one of its methods
  that write to the struct, or one iteration of one of its goroutines. The other
  methods (the accessors, \<^verbatim>\<open>sendCommand\<close>, \<^verbatim>\<open>ExecutePattern\<close>, \<^verbatim>\<open>Hush\<close>,
  \<^verbatim>\<open>GetActivePatterns\<close>, \<^verbatim>\<open>initializeTidal\<close>) only read it.\<close>

datatype 'cb watcher_op =
    OpStart stdlib "'cb option"
  | OpStop stdlib
  | OpDatagram stdlib string
  | OpTick stdlib
  | OpSetPollInterval stdlib Duration
  | OpOutputLine stdlib string
  | OpErrorLine stdlib string

fun apply_op :: "'cb watcher_op \<Rightarrow> 'cb watcher \<Rightarrow> 'cb watcher" where
  "apply_op (OpStart sys callback) w = snd (watcher_Start sys callback w)"
| "apply_op (OpStop sys) w = snd (watcher_Stop sys w)"
| "apply_op (OpDatagram sys message) (OSC w) = OSC (snd (processOSCMessage sys message w))"
| "apply_op (OpTick sys) (Files w) = Files (snd (checkForChanges sys w))"
| "apply_op (OpSetPollInterval sys interval) (Files w) = Files (SetPollInterval sys interval w)"
| "apply_op (OpOutputLine sys line) (GHCi w) = GHCi (snd (processOutputLine sys line w))"
| "apply_op (OpErrorLine sys line) (GHCi w) = GHCi (snd (processErrorLine sys line w))"
| "apply_op _ w = w"

text \<open>The watchers the constructors build.\<close>

inductive constructed :: "'cb watcher \<Rightarrow> bool" where
  "constructed (OSC (NewOSCWatcher port workspacePath))"
| "constructed (Files (NewFileWatcher workspacePath))"
| "constructed (GHCi NewGHCiWatcher)"

subsection \<open>The watcher manager\<close>

text \<open>The registry maps a name to the state of the watcher registered under it: every
  name has a watcher of its own, as \<^verbatim>\<open>registerWatchers\<close> builds them.\<close>

record ('w, 'cb) WatcherManager =
  watchers :: "string \<rightharpoonup> 'w"
  wm_callback :: "'cb option"
  wm_running :: bool

definition NewWatcherManager :: "('w, 'cb) WatcherManager" where
  "NewWatcherManager = \<lparr>watchers = Map.empty, wm_callback = None, wm_running = False\<rparr>"

definition RegisterWatcher ::
  "string \<Rightarrow> 'w \<Rightarrow> ('w, 'cb) WatcherManager \<Rightarrow> ('w, 'cb) WatcherManager" where
  "RegisterWatcher name watcher wm = wm\<lparr>watchers := (watchers wm)(name \<mapsto> watcher)\<rparr>"

definition SetCallback ::
  "'cb option \<Rightarrow> ('w, 'cb) WatcherManager \<Rightarrow> ('w, 'cb) WatcherManager" where
  "SetCallback callback wm = wm\<lparr>wm_callback := callback\<rparr>"

definition GetWatcher :: "('w, 'cb) WatcherManager \<Rightarrow> string \<Rightarrow> 'w option" where
  "GetWatcher wm name = watchers wm name"

definition WatcherManager_IsRunning :: "('w, 'cb) WatcherManager \<Rightarrow> bool" where
  "WatcherManager_IsRunning wm = wm_running wm"

text \<open>The loop of \<^verbatim>\<open>StartAll\<close> over the names still to visit. It gives the error that
  ended it, the watchers, \<^verbatim>\<open>startedAny\<close>, and the names on whose watcher it called
  \<^verbatim>\<open>Start\<close>, in the order of the calls. The last one is the trace of the loop, not a
  variable of the source.\<close>

fun StartAll_loop ::
  "('w, 'cb) ExecutionWatcher \<Rightarrow> 'cb option \<Rightarrow> string list \<Rightarrow> (string \<rightharpoonup> 'w) \<Rightarrow> bool
     \<Rightarrow> error option \<times> (string \<rightharpoonup> 'w) \<times> bool \<times> string list" where
  "StartAll_loop I callback [] ws startedAny = (None, ws, startedAny, [])"
| "StartAll_loop I callback (name # names) ws startedAny =
     (case ws name of
        None \<Rightarrow> StartAll_loop I callback names ws startedAny
      | Some watcher \<Rightarrow>
          if Enabled (GetConfig I watcher) then
            (case Start I callback watcher of
               (Some err, watcher') \<Rightarrow>
                 (Some (wrap (''failed to start watcher '' @ name) err),
                  ws(name \<mapsto> watcher'), startedAny, [name])
             | (None, watcher') \<Rightarrow>
                 (case StartAll_loop I callback names (ws(name \<mapsto> watcher')) True of
                    (err, ws', started, calls) \<Rightarrow> (err, ws', started, name # calls)))
          else StartAll_loop I callback names ws startedAny)"

definition StartAll ::
  "('w, 'cb) ExecutionWatcher \<Rightarrow> string list \<Rightarrow> ('w, 'cb) WatcherManager
     \<Rightarrow> error option \<times> ('w, 'cb) WatcherManager \<times> string list" where
  "StartAll I order wm =
     (if wm_callback wm = None then (Some (Errorf ''no callback function set''), wm, [])
      else
        (case StartAll_loop I (wm_callback wm) order (watchers wm) False of
           (Some err, ws, startedAny, calls) \<Rightarrow> (Some err, wm\<lparr>watchers := ws\<rparr>, calls)
         | (None, ws, startedAny, calls) \<Rightarrow>
             (None, wm\<lparr>watchers := ws, wm_running := startedAny\<rparr>, calls)))"

text \<open>The loop of \<^verbatim>\<open>StopAll\<close>: \<^verbatim>\<open>lastError\<close>, the watchers, and the names on whose
  watcher it called \<^verbatim>\<open>Stop\<close>.\<close>

fun StopAll_loop ::
  "('w, 'cb) ExecutionWatcher \<Rightarrow> string list \<Rightarrow> (string \<rightharpoonup> 'w) \<Rightarrow> error option
     \<Rightarrow> error option \<times> (string \<rightharpoonup> 'w) \<times> string list" where
  "StopAll_loop I [] ws lastError = (lastError, ws, [])"
| "StopAll_loop I (name # names) ws lastError =
     (case ws name of
        None \<Rightarrow> StopAll_loop I names ws lastError
      | Some watcher \<Rightarrow>
          if IsRunning I watcher then
            (case Stop I watcher of
               (res, watcher') \<Rightarrow>
                 (case StopAll_loop I names (ws(name \<mapsto> watcher'))
                         (case res of
                            Some err \<Rightarrow> Some (wrap (''failed to stop watcher '' @ name) err)
                          | None \<Rightarrow> lastError) of
                    (err, ws', calls) \<Rightarrow> (err, ws', name # calls)))
          else StopAll_loop I names ws lastError)"

definition StopAll ::
  "('w, 'cb) ExecutionWatcher \<Rightarrow> string list \<Rightarrow> ('w, 'cb) WatcherManager
     \<Rightarrow> error option \<times> ('w, 'cb) WatcherManager \<times> string list" where
  "StopAll I order wm =
     (case StopAll_loop I order (watchers wm) None of
        (lastError, ws, calls) \<Rightarrow>
          (lastError, wm\<lparr>watchers := ws, wm_running := False\<rparr>, calls))"

text \<open>The names whose watcher a loop finds enabled, or running, when it starts, and the
  names whose watcher's \<^verbatim>\<open>Stop\<close> would fail.\<close>

definition enabled_in :: "('w, 'cb) ExecutionWatcher \<Rightarrow> (string \<rightharpoonup> 'w) \<Rightarrow> string \<Rightarrow> bool" where
  "enabled_in I ws name = (case ws name of None \<Rightarrow> False | Some w \<Rightarrow> Enabled (GetConfig I w))"

definition running_in :: "('w, 'cb) ExecutionWatcher \<Rightarrow> (string \<rightharpoonup> 'w) \<Rightarrow> string \<Rightarrow> bool" where
  "running_in I ws name = (case ws name of None \<Rightarrow> False | Some w \<Rightarrow> IsRunning I w)"

definition stop_fails :: "('w, 'cb) ExecutionWatcher \<Rightarrow> (string \<rightharpoonup> 'w) \<Rightarrow> string \<Rightarrow> bool" where
  "stop_fails I ws name =
     (case ws name of None \<Rightarrow> False | Some w \<Rightarrow> IsRunning I w \<and> fst (Stop I w) \<noteq> None)"

definition start_fails ::
  "('w, 'cb) ExecutionWatcher \<Rightarrow> 'cb option \<Rightarrow> (string \<rightharpoonup> 'w) \<Rightarrow> string \<Rightarrow> bool" where
  "start_fails I callback ws name =
     (case ws name of
        None \<Rightarrow> False
      | Some w \<Rightarrow> Enabled (GetConfig I w) \<and> fst (Start I callback w) \<noteq> None)"

subsection \<open>The configuration manager\<close>

record GlobalConfig =
  Watchers :: "string \<rightharpoonup> WatcherConfig"
  DefaultLanguage :: string
  AutoCommit :: bool
  CommitMessage :: string
  WorkspacePath :: string
  LogLevel :: string

definition DefaultGlobalConfig :: GlobalConfig where
  "DefaultGlobalConfig =
     \<lparr>Watchers =
        [''sonicpi-osc'' \<mapsto>
           \<lparr>cfg_Language = ''sonicpi'', cfg_Environment = ''sonic-pi'', Enabled = False,
            Options = [''osc_port'' \<mapsto> ''4559'', ''workspace_path'' \<mapsto> []]\<rparr>,
         ''sonicpi-files'' \<mapsto>
           \<lparr>cfg_Language = ''sonicpi'', cfg_Environment = ''sonic-pi-files'', Enabled = False,
            Options = [''workspace_path'' \<mapsto> [], ''poll_interval'' \<mapsto> ''1s'']\<rparr>,
         ''tidal-ghci'' \<mapsto>
           \<lparr>cfg_Language = ''tidal'', cfg_Environment = ''tidal-cycles'', Enabled = False,
            Options = [''ghci_command'' \<mapsto> ''ghci'', ''boot_file'' \<mapsto> ''BootTidal.hs'']\<rparr>],
      DefaultLanguage = ''sonicpi'', AutoCommit = True,
      CommitMessage = ''Auto-commit: {{.Language}} execution in {{.Buffer}}'',
      WorkspacePath = [], LogLevel = ''info''\<rparr>"

record ConfigManager =
  configPath :: string
  config :: GlobalConfig

definition NewConfigManager :: "string \<Rightarrow> ConfigManager" where
  "NewConfigManager path = \<lparr>configPath = path, config = DefaultGlobalConfig\<rparr>"

definition ConfigManager_GetConfig :: "ConfigManager \<Rightarrow> GlobalConfig" where
  "ConfigManager_GetConfig cm = config cm"

definition GetWatcherConfig :: "ConfigManager \<Rightarrow> string \<Rightarrow> WatcherConfig option" where
  "GetWatcherConfig cm name = Watchers (config cm) name"

definition SetWatcherConfig :: "string \<Rightarrow> WatcherConfig \<Rightarrow> ConfigManager \<Rightarrow> ConfigManager" where
  "SetWatcherConfig name c cm =
     cm\<lparr>config := (config cm)\<lparr>Watchers := (Watchers (config cm))(name \<mapsto> c)\<rparr>\<rparr>"

definition EnableWatcher :: "string \<Rightarrow> ConfigManager \<Rightarrow> error option \<times> ConfigManager" where
  "EnableWatcher name cm =
     (case Watchers (config cm) name of
        None \<Rightarrow> (Some (Errorf (''watcher '' @ [CHR 0x27] @ name @ [CHR 0x27] @ '' not found'')), cm)
      | Some c \<Rightarrow> (None, SetWatcherConfig name (c\<lparr>Enabled := True\<rparr>) cm))"

definition DisableWatcher :: "string \<Rightarrow> ConfigManager \<Rightarrow> error option \<times> ConfigManager" where
  "DisableWatcher name cm =
     (case Watchers (config cm) name of
        None \<Rightarrow> (Some (Errorf (''watcher '' @ [CHR 0x27] @ name @ [CHR 0x27] @ '' not found'')), cm)
      | Some c \<Rightarrow> (None, SetWatcherConfig name (c\<lparr>Enabled := False\<rparr>) cm))"

text \<open>\<^verbatim>\<open>GetEnabledWatchers\<close> ranges over the configured watchers (in \<open>order\<close>) and keeps
  the names whose configuration is enabled.\<close>

fun GetEnabledWatchers_loop :: "(string \<rightharpoonup> WatcherConfig) \<Rightarrow> string list \<Rightarrow> string list" where
  "GetEnabledWatchers_loop ws [] = []"
| "GetEnabledWatchers_loop ws (name # names) =
     (case ws name of
        None \<Rightarrow> GetEnabledWatchers_loop ws names
      | Some c \<Rightarrow>
          if Enabled c then name # GetEnabledWatchers_loop ws names
          else GetEnabledWatchers_loop ws names)"

definition GetEnabledWatchers :: "string list \<Rightarrow> ConfigManager \<Rightarrow> string list" where
  "GetEnabledWatchers order cm = GetEnabledWatchers_loop (Watchers (config cm)) order"

subsection \<open>The watcher service\<close>

text \<open>The repository and the compiled template are the service's collaborators: \<open>'r\<close> is
  the repository's state and \<open>'t\<close> a template. What they do comes in with \<open>collaborators\<close>:
  \<^verbatim>\<open>Commit\<close> gives its error and the repository afterwards, \<^verbatim>\<open>Execute\<close> the text or
  its error.\<close>

record TemplateData =
  td_Language :: string
  td_Environment :: string
  td_Buffer :: string
  td_Timestamp :: string
  td_Success :: string

record ('r, 't) collaborators =
  Commit :: "string \<Rightarrow> string \<Rightarrow> ExecutionMetadata \<Rightarrow> 'r \<Rightarrow> error option \<times> 'r"
  Execute :: "'t \<Rightarrow> TemplateData \<Rightarrow> error + string"
  FormatClock :: "Time \<Rightarrow> string"

record ('w, 'cb, 'r, 't) WatcherService =
  manager :: "('w, 'cb) WatcherManager"
  configManager :: ConfigManager
  repository :: 'r
  ws_running :: bool
  autoCommit :: bool
  commitMessageTmpl :: "'t option"
  totalExecutions :: "64 word"
  totalCommits :: "64 word"
  lastExecution :: Time

record ServiceStats =
  TotalExecutions :: "64 word"
  TotalCommits :: "64 word"
  LastExecution :: Time
  ActiveWatchers :: nat
  Running :: bool

text \<open>\<^verbatim>\<open>NewWatcherService\<close>; \<open>callback\<close> stands for the method value
  \<^verbatim>\<open>service.handleExecutionEvent\<close> it gives to the manager.\<close>

definition NewWatcherService :: "'cb \<Rightarrow> 'r \<Rightarrow> string \<Rightarrow> ('w, 'cb, 'r, 't) WatcherService" where
  "NewWatcherService callback repo path =
     \<lparr>manager = SetCallback (Some callback) NewWatcherManager,
      configManager = NewConfigManager path, repository = repo, ws_running = False,
      autoCommit = True, commitMessageTmpl = None, totalExecutions = 0, totalCommits = 0,
      lastExecution = 0\<rparr>"

definition createSonicPiOSCWatcher :: "WatcherConfig \<Rightarrow> error + 'cb watcher" where
  "createSonicPiOSCWatcher c =
     (let port = (case Options c ''osc_port'' of
                    None \<Rightarrow> 4559
                  | Some portStr \<Rightarrow>
                      if portStr = ''4559'' then 4559
                      else if portStr = ''4560'' then 4560 else 4559);
          workspacePath = option_or_empty (Options c ''workspace_path'')
      in Inr (OSC (NewOSCWatcher port workspacePath)))"

definition createSonicPiFileWatcher :: "WatcherConfig \<Rightarrow> error + 'cb watcher" where
  "createSonicPiFileWatcher c =
     (let workspacePath = option_or_empty (Options c ''workspace_path'') in
      if workspacePath = [] then
        Inl (Errorf ''workspace_path is required for sonicpi-files watcher'')
      else Inr (Files (NewFileWatcher workspacePath)))"

definition createTidalGHCiWatcher :: "WatcherConfig \<Rightarrow> error + 'cb watcher" where
  "createTidalGHCiWatcher c = Inr (GHCi NewGHCiWatcher)"

text \<open>\<^verbatim>\<open>registerWatchers\<close> ranges over the configured watchers.\<close>

fun registerWatchers_loop ::
  "(string \<rightharpoonup> WatcherConfig) \<Rightarrow> string list \<Rightarrow> ('cb watcher, 'cb) WatcherManager
     \<Rightarrow> ('cb watcher, 'cb) WatcherManager" where
  "registerWatchers_loop cs [] wm = wm"
| "registerWatchers_loop cs (name # names) wm =
     (case cs name of
        None \<Rightarrow> registerWatchers_loop cs names wm
      | Some watcherConfig \<Rightarrow>
          if name = ''sonicpi-osc'' \<or> name = ''sonicpi-files'' \<or> name = ''tidal-ghci'' then
            (case (if name = ''sonicpi-osc'' then createSonicPiOSCWatcher watcherConfig
                   else if name = ''sonicpi-files'' then createSonicPiFileWatcher watcherConfig
                   else createTidalGHCiWatcher watcherConfig) of
               Inl err \<Rightarrow> registerWatchers_loop cs names wm
             | Inr watcher \<Rightarrow> registerWatchers_loop cs names (RegisterWatcher name watcher wm))
          else registerWatchers_loop cs names wm)"

definition registerWatchers ::
  "string list \<Rightarrow> ('cb watcher, 'cb, 'r, 't) WatcherService
     \<Rightarrow> ('cb watcher, 'cb, 'r, 't) WatcherService" where
  "registerWatchers order ws =
     ws\<lparr>manager := registerWatchers_loop (Watchers (config (configManager ws))) order
                      (manager ws)\<rparr>"

text \<open>\<^verbatim>\<open>Start\<close> of the service: the loop over the enabled names.\<close>

fun Service_Start_loop ::
  "('w, 'cb) ExecutionWatcher \<Rightarrow> 'cb option \<Rightarrow> string list \<Rightarrow> (string \<rightharpoonup> 'w)
     \<Rightarrow> error option \<times> (string \<rightharpoonup> 'w)" where
  "Service_Start_loop I callback [] ws = (None, ws)"
| "Service_Start_loop I callback (name # names) ws =
     (case ws name of
        None \<Rightarrow> Service_Start_loop I callback names ws
      | Some watcher \<Rightarrow>
          (case Start I callback watcher of
             (Some err, watcher') \<Rightarrow>
               (Some (wrap (''failed to start watcher '' @ name) err), ws(name \<mapsto> watcher'))
           | (None, watcher') \<Rightarrow> Service_Start_loop I callback names (ws(name \<mapsto> watcher'))))"

definition Service_Start ::
  "('w, 'cb) ExecutionWatcher \<Rightarrow> string list \<Rightarrow> ('w, 'cb, 'r, 't) WatcherService
     \<Rightarrow> error option \<times> ('w, 'cb, 'r, 't) WatcherService" where
  "Service_Start I order ws =
     (if ws_running ws then (Some (Errorf ''watcher service is already running''), ws)
      else
        (case Service_Start_loop I (wm_callback (manager ws))
                (GetEnabledWatchers order (configManager ws)) (watchers (manager ws)) of
           (Some err, wts) \<Rightarrow> (Some err, ws\<lparr>manager := (manager ws)\<lparr>watchers := wts\<rparr>\<rparr>)
         | (None, wts) \<Rightarrow>
             (None, ws\<lparr>manager := (manager ws)\<lparr>watchers := wts\<rparr>, ws_running := True\<rparr>)))"

text \<open>\<^verbatim>\<open>Stop\<close> of the service; \<open>order\<close> is the order in which \<^verbatim>\<open>StopAll\<close> ranges over
  the registry.\<close>

definition Service_Stop ::
  "('w, 'cb) ExecutionWatcher \<Rightarrow> string list \<Rightarrow> ('w, 'cb, 'r, 't) WatcherService
     \<Rightarrow> error option \<times> ('w, 'cb, 'r, 't) WatcherService" where
  "Service_Stop I order ws =
     (if \<not> ws_running ws then (None, ws)
      else
        (case StopAll I order (manager ws) of
           (Some err, wm, calls) \<Rightarrow>
             (Some (wrap ''failed to stop watchers'' err), ws\<lparr>manager := wm\<rparr>)
         | (None, wm, calls) \<Rightarrow> (None, ws\<lparr>manager := wm, ws_running := False\<rparr>)))"

definition Service_IsRunning :: "('w, 'cb, 'r, 't) WatcherService \<Rightarrow> bool" where
  "Service_IsRunning ws = ws_running ws"

definition generateCommitMessage ::
  "('r, 't) collaborators \<Rightarrow> 't \<Rightarrow> ExecutionEvent \<Rightarrow> error + string" where
  "generateCommitMessage ext tmpl event =
     Execute ext tmpl
       \<lparr>td_Language = Language event, td_Environment = Environment event,
        td_Buffer = Buffer event, td_Timestamp = FormatClock ext (Timestamp event),
        td_Success = (if Success event then ''success'' else ''error'')\<rparr>"

text \<open>\<^verbatim>\<open>createAutoCommit\<close> gives its error and the repository afterwards. With no template
  compiled (\<^verbatim>\<open>Initialize\<close> not run) the call of \<^verbatim>\<open>Execute\<close> on the \<^verbatim>\<open>nil\<close> template
  panics.\<close>

definition createAutoCommit ::
  "('r, 't) collaborators \<Rightarrow> ExecutionEvent \<Rightarrow> ('w, 'cb, 'r, 't) WatcherService
     \<Rightarrow> error option \<times> 'r" where
  "createAutoCommit ext event ws =
     (case commitMessageTmpl ws of
        None \<Rightarrow> (Some (Panic ''nil pointer dereference''), repository ws)
      | Some tmpl \<Rightarrow>
          (case generateCommitMessage ext tmpl event of
             Inl err \<Rightarrow> (Some (wrap ''failed to generate commit message'' err), repository ws)
           | Inr commitMessage \<Rightarrow>
               (case Commit ext (Content event) commitMessage (ToExecutionMetadata event)
                       (repository ws) of
                  (Some err, repo) \<Rightarrow> (Some (wrap ''failed to create commit'' err), repo)
                | (None, repo) \<Rightarrow> (None, repo))))"

text \<open>\<^verbatim>\<open>handleExecutionEvent\<close>. The result is the service afterwards and, when the call
  panicked instead of returning, the panic.\<close>

definition handleExecutionEvent ::
  "('r, 't) collaborators \<Rightarrow> ExecutionEvent \<Rightarrow> ('w, 'cb, 'r, 't) WatcherService
     \<Rightarrow> error option \<times> ('w, 'cb, 'r, 't) WatcherService" where
  "handleExecutionEvent ext event ws =
     (let ws1 = ws\<lparr>totalExecutions := totalExecutions ws + 1,
                   lastExecution := Timestamp event\<rparr>
      in if autoCommit ws1 then
           (case createAutoCommit ext event ws1 of
              (Some (Panic p), repo) \<Rightarrow> (Some (Panic p), ws1\<lparr>repository := repo\<rparr>)
            | (Some (Errorf e), repo) \<Rightarrow> (None, ws1\<lparr>repository := repo\<rparr>)
            | (None, repo) \<Rightarrow>
                (None, ws1\<lparr>repository := repo, totalCommits := totalCommits ws1 + 1\<rparr>))
         else (None, ws1))"

definition GetStats :: "string list \<Rightarrow> ('w, 'cb, 'r, 't) WatcherService \<Rightarrow> ServiceStats" where
  "GetStats order ws =
     \<lparr>TotalExecutions = totalExecutions ws, TotalCommits = totalCommits ws,
      LastExecution = lastExecution ws,
      ActiveWatchers = length (GetEnabledWatchers order (configManager ws)),
      Running = ws_running ws\<rparr>"

definition Service_GetEnabledWatchers ::
  "string list \<Rightarrow> ('w, 'cb, 'r, 't) WatcherService \<Rightarrow> string list" where
  "Service_GetEnabledWatchers order ws = GetEnabledWatchers order (configManager ws)"

subsection \<open>What the loops of the manager are expected to do, and examples\<close>

text \<open>\<^verbatim>\<open>StopAll\<close>, said without the loop: a watcher after it, the wrapped error of a
  watcher's \<^verbatim>\<open>Stop\<close>, and the error of the last name in the order whose \<^verbatim>\<open>Stop\<close>
  fails.\<close>

definition stopped :: "('w, 'cb) ExecutionWatcher \<Rightarrow> 'w \<Rightarrow> 'w" where
  "stopped I w = (if IsRunning I w then snd (Stop I w) else w)"

definition stop_error :: "('w, 'cb) ExecutionWatcher \<Rightarrow> (string \<rightharpoonup> 'w) \<Rightarrow> string \<Rightarrow> error option" where
  "stop_error I ws name =
     (case ws name of
        None \<Rightarrow> None
      | Some w \<Rightarrow>
          (case fst (Stop I w) of
             None \<Rightarrow> None
           | Some err \<Rightarrow> Some (wrap (''failed to stop watcher '' @ name) err)))"

definition last_stop_error ::
  "('w, 'cb) ExecutionWatcher \<Rightarrow> (string \<rightharpoonup> 'w) \<Rightarrow> string list \<Rightarrow> error option \<Rightarrow> error option" where
  "last_stop_error I ws names e0 =
     (case rev (filter (stop_fails I ws) names) of [] \<Rightarrow> e0 | name # _ \<Rightarrow> stop_error I ws name)"

text \<open>\<^verbatim>\<open>StartAll\<close>, said without the loop: a watcher after its \<^verbatim>\<open>Start\<close>, the wrapped
  error of a watcher's \<^verbatim>\<open>Start\<close>, the first name in the order whose \<^verbatim>\<open>Start\<close> fails, and
  the calls expected: the enabled names before that one, then that one.\<close>

definition started :: "('w, 'cb) ExecutionWatcher \<Rightarrow> 'cb option \<Rightarrow> 'w \<Rightarrow> 'w" where
  "started I callback w = snd (Start I callback w)"

definition start_error ::
  "('w, 'cb) ExecutionWatcher \<Rightarrow> 'cb option \<Rightarrow> (string \<rightharpoonup> 'w) \<Rightarrow> string \<Rightarrow> error option" where
  "start_error I callback ws name =
     (case ws name of
        None \<Rightarrow> None
      | Some w \<Rightarrow>
          (case fst (Start I callback w) of
             None \<Rightarrow> None
           | Some err \<Rightarrow> Some (wrap (''failed to start watcher '' @ name) err)))"

definition first_start_failure ::
  "('w, 'cb) ExecutionWatcher \<Rightarrow> 'cb option \<Rightarrow> (string \<rightharpoonup> 'w) \<Rightarrow> string list \<Rightarrow> string option" where
  "first_start_failure I callback ws names =
     (case filter (start_fails I callback ws) names of [] \<Rightarrow> None | name # _ \<Rightarrow> Some name)"

definition start_calls ::
  "('w, 'cb) ExecutionWatcher \<Rightarrow> 'cb option \<Rightarrow> (string \<rightharpoonup> 'w) \<Rightarrow> string list \<Rightarrow> string list" where
  "start_calls I callback ws names =
     filter (enabled_in I ws) (takeWhile (\<lambda>name. \<not> start_fails I callback ws name) names)
     @ (case first_start_failure I callback ws names of None \<Rightarrow> [] | Some name \<Rightarrow> [name])"

text \<open>Three environments: one where every call succeeds, one where the UDP port is
  taken and \<^verbatim>\<open>ghci\<close> cannot be run, one where closing the socket fails.\<close>

definition sys_ok :: stdlib where
  "sys_ok =
     \<lparr>Now = 1000, Sub = (\<lambda>t u. t - u), FormatTime = (\<lambda>t. ''00:00:01''), TrimSpace = id,
      Split = (\<lambda>s sep. [s]), cpsRegex_FindStringSubmatch = (\<lambda>s. []),
      bpmRegex_FindStringSubmatch = (\<lambda>s. []), bufferRegex_FindStringSubmatch = (\<lambda>s. []),
      ParseFloat = (\<lambda>s. Inl (Errorf ''invalid syntax'')), FormatFloat4 = (\<lambda>f. ''0.5625''),
      fmul = (\<lambda>a b. 0), fdiv = (\<lambda>a b. 0), Seconds = (\<lambda>d. 0), float_to_int64 = (\<lambda>f. 0),
      DurationString = (\<lambda>d. ''1s''), ResolveUDPAddr = Inr, ListenUDP = (\<lambda>addr. Inr 3),
      CloseUDP = (\<lambda>conn. None), PathExists = (\<lambda>p. True), WalkDir = (\<lambda>p. []),
      ReadFile = (\<lambda>p. Inr ''play 60''), StdinPipe = (\<lambda>c. Inr 4), StdoutPipe = (\<lambda>c. Inr 5),
      StderrPipe = (\<lambda>c. Inr 6), StartProcess = (\<lambda>c. Inr 4242), WriteFlush = (\<lambda>p s. None)\<rparr>"

definition sys_busy :: stdlib where
  "sys_busy =
     sys_ok\<lparr>ListenUDP := (\<lambda>addr. Inl (Errorf ''address already in use'')),
            StartProcess := (\<lambda>c. Inl (Errorf ''executable file not found''))\<rparr>"

definition sys_close_fails :: stdlib where
  "sys_close_fails = sys_ok\<lparr>CloseUDP := (\<lambda>conn. Some (Errorf ''use of closed network connection''))\<rparr>"

text \<open>A manager with a callback, an OSC listener and a GHCi watcher, before and after
  \<^verbatim>\<open>StartAll\<close>.\<close>

definition two_watchers :: "(nat watcher, nat) WatcherManager" where
  "two_watchers =
     RegisterWatcher ''tidal-ghci'' (GHCi NewGHCiWatcher)
       (RegisterWatcher ''sonicpi-osc'' (OSC (NewOSCWatcher 4559 []))
          (SetCallback (Some 0) NewWatcherManager))"

definition two_running :: "(nat watcher, nat) WatcherManager" where
  "two_running = fst (snd (StartAll (concrete sys_ok) [''sonicpi-osc'', ''tidal-ghci''] two_watchers))"

text \<open>The \<^verbatim>\<open>MockWatcher\<close> of the package's tests, and a manager with an enabled and a
  disabled one.\<close>

record 'cb MockWatcher =
  mock_config :: WatcherConfig
  mock_running :: bool
  mock_callback :: "'cb option"

definition MockWatcher_Start :: "'cb option \<Rightarrow> 'cb MockWatcher \<Rightarrow> error option \<times> 'cb MockWatcher" where
  "MockWatcher_Start callback m = (None, m\<lparr>mock_running := True, mock_callback := callback\<rparr>)"

definition MockWatcher_Stop :: "'cb MockWatcher \<Rightarrow> error option \<times> 'cb MockWatcher" where
  "MockWatcher_Stop m = (None, m\<lparr>mock_running := False\<rparr>)"

definition mock :: "('cb MockWatcher, 'cb) ExecutionWatcher" where
  "mock =
     \<lparr>Start = MockWatcher_Start, Stop = MockWatcher_Stop, IsRunning = mock_running,
      GetConfig = mock_config, GetLanguage = (\<lambda>m. cfg_Language (mock_config m)),
      GetEnvironment = (\<lambda>m. cfg_Environment (mock_config m))\<rparr>"

definition mock_watcher :: "bool \<Rightarrow> nat MockWatcher" where
  "mock_watcher enabled =
     \<lparr>mock_config = \<lparr>cfg_Language = ''test'', cfg_Environment = ''test-env'',
        Enabled = enabled, Options = Map.empty\<rparr>,
      mock_running = False, mock_callback = None\<rparr>"

definition mock_manager :: "(nat MockWatcher, nat) WatcherManager" where
  "mock_manager =
     RegisterWatcher ''B'' (mock_watcher False)
       (RegisterWatcher ''A'' (mock_watcher True) (SetCallback (Some 0) NewWatcherManager))"

subsection \<open>Examples of a service, its collaborators and running watchers\<close>

text \<open>\<^verbatim>\<open>Initialize\<close>, \<^verbatim>\<open>EnableWatcher\<close> and \<^verbatim>\<open>DisableWatcher\<close> of the service read and
  write the configuration file and are not modelled; the examples set what they leave
  behind. Here: the service after \<^verbatim>\<open>Initialize\<close> (the template is its text, the
  repository a count of commits) with the OSC listener enabled, and after \<^verbatim>\<open>Start\<close>.\<close>

definition enabled_osc_service :: "(nat watcher, nat, nat, string) WatcherService" where
  "enabled_osc_service =
     (let s0 = NewWatcherService 0 0 ''watchers.json'';
          s1 = s0\<lparr>configManager := snd (EnableWatcher ''sonicpi-osc'' (configManager s0)),
                  commitMessageTmpl := Some (CommitMessage DefaultGlobalConfig)\<rparr>
      in registerWatchers [''sonicpi-osc'', ''sonicpi-files'', ''tidal-ghci''] s1)"

definition running_service :: "(nat watcher, nat, nat, string) WatcherService" where
  "running_service =
     snd (Service_Start (concrete sys_ok) [''sonicpi-osc'', ''sonicpi-files'', ''tidal-ghci'']
            enabled_osc_service)"

text \<open>Collaborators that succeed, whose \<^verbatim>\<open>Commit\<close> fails, and whose template fails to
  render.\<close>

definition ext_ok :: "(nat, string) collaborators" where
  "ext_ok =
     \<lparr>Commit = (\<lambda>content message metadata repo. (None, Suc repo)),
      Execute = (\<lambda>tmpl data. Inr (''Auto-commit: '' @ td_Language data @ '' execution in ''
                                    @ td_Buffer data)),
      FormatClock = (\<lambda>t. ''12:00:00'')\<rparr>"

definition ext_commit_fails :: "(nat, string) collaborators" where
  "ext_commit_fails =
     ext_ok\<lparr>Commit := (\<lambda>content message metadata repo.
                          (Some (Errorf ''repository not initialized''), repo))\<rparr>"

definition ext_render_fails :: "(nat, string) collaborators" where
  "ext_render_fails =
     ext_ok\<lparr>Execute := (\<lambda>tmpl data. Inl (Errorf ''can't evaluate field''))\<rparr>"

text \<open>The event of \<^verbatim>\<open>TestWatcherServiceHandleExecutionEvent\<close>.\<close>

definition test_event :: ExecutionEvent where
  "test_event =
     \<lparr>Timestamp = 1700000000, Content = ''test code'', Buffer = ''test-buffer'',
      Language = ''sonicpi'', Environment = ''sonic-pi'', Success = True, ErrorMessage = [],
      BPM = 0, BeatsFromStart = 0, FilePath = [], LineNumber = 0, ProcessID = 0,
      ExtraData = Map.empty\<rparr>"

text \<open>A name whose configuration in the config manager is enabled.\<close>

definition config_enabled :: "ConfigManager \<Rightarrow> string \<Rightarrow> bool" where
  "config_enabled cm name =
     (case Watchers (config cm) name of None \<Rightarrow> False | Some c \<Rightarrow> Enabled c)"

text \<open>The three watchers after a successful \<^verbatim>\<open>Start\<close>.\<close>

definition running_osc :: "nat OSCWatcher" where
  "running_osc = snd (OSCWatcher_Start sys_ok (Some 0) (NewOSCWatcher 4559 []))"

definition running_files :: "nat FileWatcher" where
  "running_files = snd (FileWatcher_Start sys_ok (Some 0) (NewFileWatcher ''/ws''))"

definition running_ghci :: "nat GHCiWatcher" where
  "running_ghci = snd (GHCiWatcher_Start sys_ok (Some 0) NewGHCiWatcher)"

subsection \<open>Reachable watchers, their invariant, and examples of a polled workspace\<close>

text \<open>The events of a tick that are about one file.\<close>

definition events_for :: "string \<Rightarrow> ExecutionEvent list \<Rightarrow> ExecutionEvent list" where
  "events_for p events = filter (\<lambda>event. FilePath event = p) events"

text \<open>The watchers that exist in a run: one a constructor built, after any number of
  calls and goroutine iterations.\<close>

inductive reachable :: "'cb watcher \<Rightarrow> bool" where
  "constructed w \<Longrightarrow> reachable w"
| "reachable w \<Longrightarrow> reachable (apply_op op w)"

text \<open>What holds of every such watcher: its configuration is enabled; a file poller
  knows only files that \<^verbatim>\<open>isSonicPiFile\<close> accepts, and has an open stop channel while it
  runs.\<close>

definition known_files_relevant :: "'cb FileWatcher \<Rightarrow> bool" where
  "known_files_relevant w = (\<forall>p t. lastModified w p = Some t \<longrightarrow> isSonicPiFile p)"

definition running_has_open_chan :: "'cb FileWatcher \<Rightarrow> bool" where
  "running_has_open_chan w = (fw_running w \<longrightarrow> stopChan w = Some ChanOpen)"

fun watcher_inv :: "'cb watcher \<Rightarrow> bool" where
  "watcher_inv (OSC w) = Enabled (osc_config w)"
| "watcher_inv (Files w) =
     (Enabled (fw_config w) \<and> known_files_relevant w \<and> running_has_open_chan w)"
| "watcher_inv (GHCi w) = Enabled (ghci_config w)"

text \<open>A workspace when the poller starts and on a later tick, and the poller started
  there.\<close>

definition sys_scan :: stdlib where
  "sys_scan = sys_ok\<lparr>WalkDir := (\<lambda>root.
     [WalkEntry ''/ws'' None (Inr 50), WalkEntry ''/ws/a.rb'' None (Inr 100),
      WalkEntry ''/ws/notes.txt'' None (Inr 100)])\<rparr>"

definition sys_tick :: stdlib where
  "sys_tick = sys_ok\<lparr>WalkDir := (\<lambda>root.
     [WalkEntry ''/ws'' None (Inr 50), WalkEntry ''/ws/a.rb'' None (Inr 200),
      WalkEntry ''/ws/buffer_1'' None (Inr 150), WalkEntry ''/ws/notes.txt'' None (Inr 300)])\<rparr>"

definition polling :: "nat option \<Rightarrow> nat FileWatcher" where
  "polling callback = snd (FileWatcher_Start sys_scan callback (NewFileWatcher ''/ws''))"

text \<open>The service after \<^verbatim>\<open>Initialize\<close> with the default configuration: no watcher is
  enabled.\<close>

definition default_service :: "(nat watcher, nat, nat, string) WatcherService" where
  "default_service =
     registerWatchers [''sonicpi-osc'', ''sonicpi-files'', ''tidal-ghci'']
       ((NewWatcherService 0 0 ''watchers.json'')
          \<lparr>commitMessageTmpl := Some (CommitMessage DefaultGlobalConfig)\<rparr>)"

section \<open>Properties\<close>

text \<open>\<open>Contains\<close> is the substring relation.\<close>

lemma Contains_sublist: "Contains s sub = sublist sub s"
  by (induction s) (auto simp: sublist_Cons_right)

subsection \<open>The connection of a Tidal line\<close>

lemma isDigit_isWordChar: "isDigit c \<Longrightarrow> isWordChar c"
  by (simp add: isWordChar_def)

lemma takeWhile_digits:
  assumes "list_all isDigit ds" "post = [] \<or> \<not> isWordChar (hd post)"
  shows "takeWhile isDigit (ds @ post) = ds" "dropWhile isDigit (ds @ post) = post"
proof -
  have np: "post = [] \<or> \<not> isDigit (hd post)"
    using assms(2) isDigit_isWordChar by blast
  have a: "\<forall>x\<in>set ds. isDigit x" using assms(1) by (simp add: list_all_iff)
  show "takeWhile isDigit (ds @ post) = ds"
    using a np by (cases post) (simp_all add: takeWhile_append2)
  show "dropWhile isDigit (ds @ post) = post"
    using a np by (cases post) (simp_all add: dropWhile_append2)
qed

lemma scan_sound:
  "connectionRegex_scan prev s = Some m \<Longrightarrow>
   \<exists>pre ds post. s = pre @ CHR ''d'' # ds @ post \<and> m = CHR ''d'' # ds \<and> ds \<noteq> []
      \<and> list_all isDigit ds \<and> boundary_before prev pre
      \<and> (post = [] \<or> \<not> isWordChar (hd post))"
proof (induction s arbitrary: prev)
  case Nil
  then show ?case by simp
next
  case (Cons c cs)
  let ?hit = "\<not> prev \<and> c = CHR ''d'' \<and> takeWhile isDigit cs \<noteq> []
         \<and> (case dropWhile isDigit cs of [] \<Rightarrow> True | x # _ \<Rightarrow> \<not> isWordChar x)"
  show ?case
  proof (cases ?hit)
    case True
    then have m: "m = c # takeWhile isDigit cs" using Cons.prems by simp
    have "c # cs = [] @ CHR ''d'' # takeWhile isDigit cs @ dropWhile isDigit cs"
      using True by simp
    moreover have "list_all isDigit (takeWhile isDigit cs)"
      by (simp add: list_all_iff) (meson set_takeWhileD)
    moreover have "dropWhile isDigit cs = [] \<or> \<not> isWordChar (hd (dropWhile isDigit cs))"
      using True by (cases "dropWhile isDigit cs") auto
    ultimately show ?thesis
      using True m unfolding boundary_before_def
      by (intro exI[of _ "[]"] exI[of _ "takeWhile isDigit cs"] exI[of _ "dropWhile isDigit cs"]) simp
  next
    case False
    then have "connectionRegex_scan (isWordChar c) cs = Some m"
      using Cons.prems by (simp split: if_splits)
    from Cons.IH[OF this] obtain pre ds post where
      h: "cs = pre @ CHR ''d'' # ds @ post" "m = CHR ''d'' # ds" "ds \<noteq> []"
         "list_all isDigit ds" "boundary_before (isWordChar c) pre"
         "post = [] \<or> \<not> isWordChar (hd post)" by blast
    have "boundary_before prev (c # pre)"
      using h(5) unfolding boundary_before_def by (cases "pre = []") auto
    moreover have "c # cs = (c # pre) @ CHR ''d'' # ds @ post" using h(1) by simp
    ultimately show ?thesis using h by blast
  qed
qed

lemma scan_complete:
  "s = pre @ CHR ''d'' # ds @ post \<Longrightarrow> ds \<noteq> [] \<Longrightarrow> list_all isDigit ds \<Longrightarrow>
   boundary_before prev pre \<Longrightarrow> post = [] \<or> \<not> isWordChar (hd post) \<Longrightarrow>
   connectionRegex_scan prev s \<noteq> None"
proof (induction pre arbitrary: prev s)
  case Nil
  have t: "takeWhile isDigit (ds @ post) = ds" and d: "dropWhile isDigit (ds @ post) = post"
    using takeWhile_digits[OF Nil.prems(3) Nil.prems(5)] by simp_all
  have "\<not> prev" using Nil.prems(4) by (simp add: boundary_before_def)
  moreover have "(case post of [] \<Rightarrow> True | x # _ \<Rightarrow> \<not> isWordChar x)"
    using Nil.prems(5) by (cases post) auto
  ultimately show ?case
    using Nil.prems(1,2) t d by simp
next
  case (Cons p pre)
  have b: "boundary_before (isWordChar p) pre"
    using Cons.prems(4) unfolding boundary_before_def by (cases "pre = []") auto
  have "connectionRegex_scan (isWordChar p) (pre @ CHR ''d'' # ds @ post) \<noteq> None"
    using Cons.IH[OF refl Cons.prems(2) Cons.prems(3) b Cons.prems(5)] .
  then show ?case using Cons.prems(1) by auto
qed

lemma scan_None_iff:
  "connectionRegex_scan False s = None \<longleftrightarrow> \<not> (\<exists>pre ds post. connection_match pre ds post s)"
proof
  assume n: "connectionRegex_scan False s = None"
  show "\<not> (\<exists>pre ds post. connection_match pre ds post s)"
  proof
    assume "\<exists>pre ds post. connection_match pre ds post s"
    then obtain pre ds post where m: "connection_match pre ds post s" by blast
    then have "connectionRegex_scan False s \<noteq> None"
      using scan_complete[of s pre ds post False]
      unfolding connection_match_def boundary_before_def by auto
    with n show False by simp
  qed
next
  assume n: "\<not> (\<exists>pre ds post. connection_match pre ds post s)"
  show "connectionRegex_scan False s = None"
  proof (rule ccontr)
    assume "connectionRegex_scan False s \<noteq> None"
    then obtain m where "connectionRegex_scan False s = Some m" by blast
    from scan_sound[OF this] obtain pre ds post where
      "s = pre @ CHR ''d'' # ds @ post" "ds \<noteq> []" "list_all isDigit ds"
      "boundary_before False pre" "post = [] \<or> \<not> isWordChar (hd post)" by blast
    then have "connection_match pre ds post s"
      unfolding connection_match_def boundary_before_def by (auto split: if_splits)
    with n show False by blast
  qed
qed

lemma scan_hit_at_head:
  assumes "ds \<noteq> []" "list_all isDigit ds" "\<not> prev" "post = [] \<or> \<not> isWordChar (hd post)"
  shows "connectionRegex_scan prev (CHR ''d'' # ds @ post) = Some (CHR ''d'' # ds)"
proof -
  have t: "takeWhile isDigit (ds @ post) = ds" and d: "dropWhile isDigit (ds @ post) = post"
    using takeWhile_digits[OF assms(2) assms(4)] by simp_all
  have "(case post of [] \<Rightarrow> True | x # _ \<Rightarrow> \<not> isWordChar x)"
    using assms(4) by (cases post) auto
  then show ?thesis using assms(1,3) t d by simp
qed

lemma scan_first:
  "connectionRegex_scan prev (pre @ CHR ''d'' # ds @ post) = Some m \<Longrightarrow>
   ds \<noteq> [] \<Longrightarrow> list_all isDigit ds \<Longrightarrow> boundary_before prev pre \<Longrightarrow>
   post = [] \<or> \<not> isWordChar (hd post) \<Longrightarrow>
   (\<And>p2 d2 q2. pre @ CHR ''d'' # ds @ post = p2 @ CHR ''d'' # d2 @ q2 \<Longrightarrow> d2 \<noteq> [] \<Longrightarrow>
      list_all isDigit d2 \<Longrightarrow> boundary_before prev p2 \<Longrightarrow> q2 = [] \<or> \<not> isWordChar (hd q2) \<Longrightarrow>
      length pre \<le> length p2) \<Longrightarrow>
   m = CHR ''d'' # ds"
proof (induction pre arbitrary: prev)
  case Nil
  have "\<not> prev" using Nil.prems(4) by (simp add: boundary_before_def)
  from scan_hit_at_head[OF Nil.prems(2) Nil.prems(3) this Nil.prems(5)] Nil.prems(1)
  show ?case by simp
next
  case (Cons p pre)
  let ?cs = "pre @ CHR ''d'' # ds @ post"
  let ?hit = "\<not> prev \<and> p = CHR ''d'' \<and> takeWhile isDigit ?cs \<noteq> []
         \<and> (case dropWhile isDigit ?cs of [] \<Rightarrow> True | x # _ \<Rightarrow> \<not> isWordChar x)"
  have nohit: "\<not> ?hit"
  proof
    assume h: ?hit
    have "(p # pre) @ CHR ''d'' # ds @ post = [] @ CHR ''d'' # takeWhile isDigit ?cs @ dropWhile isDigit ?cs"
      using h by simp
    moreover have "list_all isDigit (takeWhile isDigit ?cs)"
      by (simp add: list_all_iff) (meson set_takeWhileD)
    moreover have "dropWhile isDigit ?cs = [] \<or> \<not> isWordChar (hd (dropWhile isDigit ?cs))"
      using h by (cases "dropWhile isDigit ?cs") auto
    moreover have "boundary_before prev []" using h by (simp add: boundary_before_def)
    ultimately have "length (p # pre) \<le> length ([]::string)"
      using Cons.prems(6)[of "[]" "takeWhile isDigit ?cs" "dropWhile isDigit ?cs"] h by blast
    then show False by simp
  qed
  then have r: "connectionRegex_scan (isWordChar p) ?cs = Some m"
    using Cons.prems(1) by (simp split: if_splits)
  have b: "boundary_before (isWordChar p) pre"
    using Cons.prems(4) unfolding boundary_before_def by (cases "pre = []") auto
  show ?case
  proof (rule Cons.IH[OF r Cons.prems(2) Cons.prems(3) b Cons.prems(5)])
    fix p2 d2 q2
    assume a: "?cs = p2 @ CHR ''d'' # d2 @ q2" "d2 \<noteq> []" "list_all isDigit d2"
      "boundary_before (isWordChar p) p2" "q2 = [] \<or> \<not> isWordChar (hd q2)"
    have "boundary_before prev (p # p2)"
      using a(4) unfolding boundary_before_def by (cases "p2 = []") auto
    then have "length (p # pre) \<le> length (p # p2)"
      using Cons.prems(6)[of "p # p2" d2 q2] a by simp
    then show "length pre \<le> length p2" by simp
  qed
qed

lemma connection_match_boundary:
  "connection_match pre ds post s \<longleftrightarrow>
   s = pre @ CHR ''d'' # ds @ post \<and> ds \<noteq> [] \<and> list_all isDigit ds
     \<and> boundary_before False pre \<and> (post = [] \<or> \<not> isWordChar (hd post))"
  unfolding connection_match_def boundary_before_def by auto

lemma first_connection_match_exists:
  assumes "connection_match pre ds post s"
  shows "\<exists>pre ds post. first_connection_match pre ds post s"
proof -
  let ?P = "\<lambda>n. \<exists>pre ds post. connection_match pre ds post s \<and> length pre = n"
  have "\<exists>n. ?P n" using assms by blast
  then obtain n where n: "?P n" "\<forall>k<n. \<not> ?P k"
    using exists_least_iff[of ?P] by blast
  then obtain p d q where m: "connection_match p d q s" "length p = n" by blast
  have "length p \<le> length p2" if "connection_match p2 d2 q2 s" for p2 d2 q2
  proof (rule ccontr)
    assume "\<not> length p \<le> length p2"
    then have "length p2 < n" using m(2) by simp
    with n(2) that show False by blast
  qed
  then show ?thesis using m(1) unfolding first_connection_match_def by blast
qed

lemma scan_first_match:
  assumes "first_connection_match pre ds post s"
  shows "connectionRegex_scan False s = Some (CHR ''d'' # ds)"
proof -
  have m: "s = pre @ CHR ''d'' # ds @ post" "ds \<noteq> []" "list_all isDigit ds"
    "boundary_before False pre" "post = [] \<or> \<not> isWordChar (hd post)"
    using assms unfolding first_connection_match_def connection_match_boundary by simp_all
  have "connectionRegex_scan False s \<noteq> None"
    using scan_complete[OF m] .
  then obtain r where r: "connectionRegex_scan False s = Some r" by blast
  have "r = CHR ''d'' # ds"
  proof (rule scan_first[OF _ m(2) m(3) m(4) m(5)])
    show "connectionRegex_scan False (pre @ CHR ''d'' # ds @ post) = Some r"
      using r m(1) by simp
  next
    fix p2 d2 q2
    assume "pre @ CHR ''d'' # ds @ post = p2 @ CHR ''d'' # d2 @ q2" "d2 \<noteq> []"
      "list_all isDigit d2" "boundary_before False p2" "q2 = [] \<or> \<not> isWordChar (hd q2)"
    then have "connection_match p2 d2 q2 s"
      using m(1) unfolding connection_match_boundary by simp
    then show "length pre \<le> length p2"
      using assms unfolding first_connection_match_def by blast
  qed
  then show ?thesis using r by simp
qed

text \<open>Claim C4, as the code has it. \<^verbatim>\<open>extractConnection\<close> looks for a numbered
  pattern first: a \<^verbatim>\<open>d\<close> followed by digits, with a word boundary on both sides. When the
  text has none, the result is \<^verbatim>\<open>all\<close> if the text contains \<^verbatim>\<open>hush\<close> and \<^verbatim>\<open>unknown\<close>
  otherwise. When it has one, the result is the leftmost one, also in a text that
  contains \<^verbatim>\<open>hush\<close>.\<close>

theorem extractConnection_result:
  "(\<not> (\<exists>pre ds post. connection_match pre ds post s) \<longrightarrow>
      extractConnection s = (if Contains s ''hush'' then ''all'' else ''unknown''))
   \<and> ((\<exists>pre ds post. connection_match pre ds post s) \<longrightarrow>
      (\<exists>pre ds post. first_connection_match pre ds post s
         \<and> extractConnection s = CHR ''d'' # ds))"
proof (intro conjI impI)
  assume "\<not> (\<exists>pre ds post. connection_match pre ds post s)"
  then have "connectionRegex_scan False s = None" by (simp add: scan_None_iff)
  then show "extractConnection s = (if Contains s ''hush'' then ''all'' else ''unknown'')"
    by (simp add: extractConnection_def connectionRegex_FindStringSubmatch_def)
next
  assume "\<exists>pre ds post. connection_match pre ds post s"
  then obtain pre ds post where f: "first_connection_match pre ds post s"
    using first_connection_match_exists by blast
  then have "connectionRegex_scan False s = Some (CHR ''d'' # ds)"
    by (rule scan_first_match)
  then have "extractConnection s = CHR ''d'' # ds"
    by (simp add: extractConnection_def connectionRegex_FindStringSubmatch_def)
  with f show "\<exists>pre ds post. first_connection_match pre ds post s
         \<and> extractConnection s = CHR ''d'' # ds" by blast
qed

theorem extractConnection_result_witness:
  "extractConnection ''hush'' = ''all'' \<and> extractConnection ''bd*2'' = ''unknown''
   \<and> (\<exists>pre ds post. first_connection_match pre ds post ''d1 $ hush''
         \<and> extractConnection ''d1 $ hush'' = CHR ''d'' # ds)"
proof -
  have a: "\<not> (\<exists>pre ds post. connection_match pre ds post ''hush'')"
    unfolding scan_None_iff[symmetric] by (simp add: isWordChar_def isDigit_def byte_def)
  have b: "\<not> (\<exists>pre ds post. connection_match pre ds post ''bd*2'')"
    unfolding scan_None_iff[symmetric] by (simp add: isWordChar_def isDigit_def byte_def)
  have "connection_match [] ''1'' '' $ hush'' ''d1 $ hush''"
    by (simp add: connection_match_def isWordChar_def isDigit_def byte_def)
  then have c: "\<exists>pre ds post. connection_match pre ds post ''d1 $ hush''" by blast
  show ?thesis
    using extractConnection_result[of "''hush''"] extractConnection_result[of "''bd*2''"]
      extractConnection_result[of "''d1 $ hush''"] a b c
    by simp
qed

text \<open>Claim C4 as stated fails: a text with \<^verbatim>\<open>hush\<close> and a numbered pattern gives the
  pattern, not \<^verbatim>\<open>all\<close>.\<close>

theorem extractConnection_hush_counterexample:
  "Contains ''d1 $ hush'' ''hush'' \<and> extractConnection ''d1 $ hush'' \<noteq> ''all''"
  by (simp add: extractConnection_def connectionRegex_FindStringSubmatch_def
      isWordChar_def isDigit_def byte_def)

subsection \<open>The manager: StopAll and StartAll\<close>

lemma filter_upd_other:
  "name \<notin> set names \<Longrightarrow> filter (running_in I (ws(name \<mapsto> w'))) names = filter (running_in I ws) names"
  by (rule filter_cong) (auto simp: running_in_def)

lemma filter_fails_upd_other:
  "name \<notin> set names \<Longrightarrow> filter (stop_fails I (ws(name \<mapsto> w'))) names = filter (stop_fails I ws) names"
  by (rule filter_cong) (auto simp: stop_fails_def)

lemma stop_error_upd_other:
  "n \<noteq> name \<Longrightarrow> stop_error I (ws(name \<mapsto> w')) n = stop_error I ws n"
  by (simp add: stop_error_def)

lemma last_stop_error_upd_other:
  assumes "name \<notin> set names"
  shows "last_stop_error I (ws(name \<mapsto> w')) names e0 = last_stop_error I ws names e0"
proof -
  have f: "filter (stop_fails I (ws(name \<mapsto> w'))) names = filter (stop_fails I ws) names"
    using assms by (rule filter_fails_upd_other)
  show ?thesis
  proof (cases "rev (filter (stop_fails I ws) names)")
    case Nil
    then show ?thesis by (simp add: last_stop_error_def f)
  next
    case (Cons n ns)
    then have "n \<in> set (filter (stop_fails I ws) names)"
      by (metis list.set_intros(1) set_rev)
    then have "n \<noteq> name" using assms by auto
    then show ?thesis using Cons by (simp add: last_stop_error_def f stop_error_upd_other)
  qed
qed

lemma StopAll_loop_calls:
  "distinct names \<Longrightarrow>
   snd (snd (StopAll_loop I names ws e0)) = filter (running_in I ws) names"
proof (induction names arbitrary: ws e0)
  case Nil
  then show ?case by simp
next
  case (Cons name names)
  then have d: "distinct names" and n: "name \<notin> set names" by simp_all
  show ?case
  proof (cases "ws name")
    case None
    then show ?thesis using Cons.IH[OF d] by (simp add: running_in_def)
  next
    case (Some w)
    show ?thesis
    proof (cases "IsRunning I w")
      case False
      then show ?thesis using Some Cons.IH[OF d] by (simp add: running_in_def)
    next
      case True
      obtain res w' where s: "Stop I w = (res, w')" by (cases "Stop I w")
      let ?e1 = "(case res of Some err \<Rightarrow> Some (wrap (''failed to stop watcher '' @ name) err)
                          | None \<Rightarrow> e0)"
      have "snd (snd (StopAll_loop I (name # names) ws e0))
            = name # snd (snd (StopAll_loop I names (ws(name \<mapsto> w')) ?e1))"
        using Some True s by (simp split: prod.splits)
      also have "\<dots> = name # filter (running_in I (ws(name \<mapsto> w'))) names"
        by (simp only: Cons.IH[OF d])
      also have "\<dots> = name # filter (running_in I ws) names"
        by (simp only: filter_upd_other[OF n])
      also have "\<dots> = filter (running_in I ws) (name # names)"
        using Some True by (simp add: running_in_def)
      finally show ?thesis .
    qed
  qed
qed

lemma StopAll_loop_error:
  "distinct names \<Longrightarrow>
   fst (StopAll_loop I names ws e0) = last_stop_error I ws names e0"
proof (induction names arbitrary: ws e0)
  case Nil
  then show ?case by (simp add: last_stop_error_def)
next
  case (Cons name names)
  then have d: "distinct names" and n: "name \<notin> set names" by simp_all
  show ?case
  proof (cases "ws name")
    case None
    then show ?thesis using Cons.IH[OF d] by (simp add: last_stop_error_def stop_fails_def)
  next
    case (Some w)
    show ?thesis
    proof (cases "IsRunning I w")
      case False
      then show ?thesis using Some Cons.IH[OF d] by (simp add: last_stop_error_def stop_fails_def)
    next
      case True
      obtain res w' where s: "Stop I w = (res, w')" by (cases "Stop I w")
      let ?e1 = "(case res of Some err \<Rightarrow> Some (wrap (''failed to stop watcher '' @ name) err)
                          | None \<Rightarrow> e0)"
      have "fst (StopAll_loop I (name # names) ws e0)
            = fst (StopAll_loop I names (ws(name \<mapsto> w')) ?e1)"
        using Some True s by (simp split: prod.splits)
      also have "\<dots> = last_stop_error I (ws(name \<mapsto> w')) names ?e1"
        using Cons.IH[OF d] .
      also have "\<dots> = last_stop_error I ws names ?e1"
        using last_stop_error_upd_other[OF n] .
      also have "\<dots> = last_stop_error I ws (name # names) e0"
      proof (cases res)
        case None
        then show ?thesis using Some True s by (simp add: last_stop_error_def stop_fails_def)
      next
        case (Some err)
        then have "stop_fails I ws name" using \<open>ws name = Some w\<close> True s by (simp add: stop_fails_def)
        then show ?thesis
          using Some \<open>ws name = Some w\<close> s
          by (cases "rev (filter (stop_fails I ws) names)") (simp_all add: last_stop_error_def stop_error_def)
      qed
      finally show ?thesis .
    qed
  qed
qed

lemma StopAll_loop_watchers:
  "distinct names \<Longrightarrow>
   fst (snd (StopAll_loop I names ws e0)) n =
     (if n \<in> set names then map_option (stopped I) (ws n) else ws n)"
proof (induction names arbitrary: ws e0)
  case Nil
  then show ?case by simp
next
  case (Cons name names)
  then have d: "distinct names" and nn: "name \<notin> set names" by simp_all
  show ?case
  proof (cases "ws name")
    case None
    then show ?thesis using Cons.IH[OF d, of ws e0] by auto
  next
    case (Some w)
    show ?thesis
    proof (cases "IsRunning I w")
      case False
      then have "stopped I w = w" by (simp add: stopped_def)
      then show ?thesis using Some False Cons.IH[OF d, of ws e0] by auto
    next
      case True
      obtain res w' where s: "Stop I w = (res, w')" by (cases "Stop I w")
      let ?e1 = "(case res of Some err \<Rightarrow> Some (wrap (''failed to stop watcher '' @ name) err)
                          | None \<Rightarrow> e0)"
      have st: "stopped I w = w'" using True s by (simp add: stopped_def)
      have "fst (snd (StopAll_loop I (name # names) ws e0)) n
            = fst (snd (StopAll_loop I names (ws(name \<mapsto> w')) ?e1)) n"
        using Some True s by (simp split: prod.splits)
      also have "\<dots> = (if n \<in> set names then map_option (stopped I) ((ws(name \<mapsto> w')) n)
                         else (ws(name \<mapsto> w')) n)"
        using Cons.IH[OF d] .
      also have "\<dots> = (if n \<in> set (name # names) then map_option (stopped I) (ws n) else ws n)"
        using nn Some st by auto
      finally show ?thesis .
    qed
  qed
qed

lemma start_fails_upd_other:
  "n \<noteq> name \<Longrightarrow> start_fails I cb (ws(name \<mapsto> w')) n = start_fails I cb ws n"
  by (simp add: start_fails_def)

lemma enabled_in_upd_other:
  "n \<noteq> name \<Longrightarrow> enabled_in I (ws(name \<mapsto> w')) n = enabled_in I ws n"
  by (simp add: enabled_in_def)

lemma start_error_upd_other:
  "n \<noteq> name \<Longrightarrow> start_error I cb (ws(name \<mapsto> w')) n = start_error I cb ws n"
  by (simp add: start_error_def)

lemma first_start_failure_upd_other:
  assumes "name \<notin> set names"
  shows "first_start_failure I cb (ws(name \<mapsto> w')) names = first_start_failure I cb ws names"
proof -
  have ne: "\<And>x. x \<in> set names \<Longrightarrow> x \<noteq> name" using assms by auto
  have "filter (start_fails I cb (ws(name \<mapsto> w'))) names = filter (start_fails I cb ws) names"
    by (rule filter_cong) (simp_all add: start_fails_upd_other ne)
  then show ?thesis by (simp only: first_start_failure_def)
qed

lemma first_start_failure_Some:
  assumes "first_start_failure I cb ws names = Some k"
  shows "k \<in> set names \<and> start_fails I cb ws k"
proof -
  obtain r where "filter (start_fails I cb ws) names = k # r"
    using assms by (auto simp: first_start_failure_def split: list.splits)
  then have "k \<in> set (filter (start_fails I cb ws) names)" by simp
  then show ?thesis by simp
qed

lemma start_calls_subset: "set (start_calls I cb ws names) \<subseteq> set names"
proof -
  have "set (takeWhile (\<lambda>n. \<not> start_fails I cb ws n) names) \<subseteq> set names"
    by (meson set_takeWhileD subsetI)
  moreover have "first_start_failure I cb ws names = Some k \<Longrightarrow> k \<in> set names" for k
    using first_start_failure_Some by blast
  ultimately show ?thesis
    by (auto simp: start_calls_def split: option.splits)
qed

lemma start_calls_upd_other:
  assumes "name \<notin> set names"
  shows "start_calls I cb (ws(name \<mapsto> w')) names = start_calls I cb ws names"
proof -
  have ne: "\<And>x. x \<in> set names \<Longrightarrow> x \<noteq> name" using assms by auto
  have a: "takeWhile (\<lambda>n. \<not> start_fails I cb (ws(name \<mapsto> w')) n) names
           = takeWhile (\<lambda>n. \<not> start_fails I cb ws n) names"
    by (rule takeWhile_cong) (simp_all add: start_fails_upd_other ne)
  have b: "filter (enabled_in I (ws(name \<mapsto> w'))) xs = filter (enabled_in I ws) xs"
    if "set xs \<subseteq> set names" for xs
  proof (rule filter_cong)
    show "xs = xs" ..
  next
    fix x assume "x \<in> set xs"
    then have "x \<noteq> name" using that ne by auto
    then show "enabled_in I (ws(name \<mapsto> w')) x = enabled_in I ws x"
      by (rule enabled_in_upd_other)
  qed
  have c: "set (takeWhile (\<lambda>n. \<not> start_fails I cb ws n) names) \<subseteq> set names"
    by (meson set_takeWhileD subsetI)
  show ?thesis
    unfolding start_calls_def a b[OF c] first_start_failure_upd_other[OF assms] ..
qed

lemma first_start_failure_Cons:
  "first_start_failure I cb ws (name # names) =
     (if start_fails I cb ws name then Some name else first_start_failure I cb ws names)"
  by (simp add: first_start_failure_def)

lemma start_calls_Cons:
  "start_calls I cb ws (name # names) =
     (if start_fails I cb ws name then [name]
      else if enabled_in I ws name then name # start_calls I cb ws names
      else start_calls I cb ws names)"
  by (simp add: start_calls_def first_start_failure_Cons)

lemma StartAll_loop_calls:
  "distinct names \<Longrightarrow>
   snd (snd (snd (StartAll_loop I cb names ws st))) = start_calls I cb ws names"
proof (induction names arbitrary: ws st)
  case Nil
  then show ?case by (simp add: start_calls_def first_start_failure_def)
next
  case (Cons name names)
  then have d: "distinct names" and n: "name \<notin> set names" by simp_all
  show ?case
  proof (cases "ws name")
    case None
    then show ?thesis
      using Cons.IH[OF d] by (simp add: start_calls_Cons start_fails_def enabled_in_def)
  next
    case (Some w)
    show ?thesis
    proof (cases "Enabled (GetConfig I w)")
      case False
      then show ?thesis
        using Some Cons.IH[OF d] by (simp add: start_calls_Cons start_fails_def enabled_in_def)
    next
      case True
      obtain res w' where s: "Start I cb w = (res, w')" by (cases "Start I cb w")
      show ?thesis
      proof (cases res)
        case (Some err)
        then show ?thesis
          using \<open>ws name = Some w\<close> True s by (simp add: start_calls_Cons start_fails_def)
      next
        case None
        have "snd (snd (snd (StartAll_loop I cb (name # names) ws st)))
              = name # snd (snd (snd (StartAll_loop I cb names (ws(name \<mapsto> w')) True)))"
          using Some True s None by (simp split: prod.splits)
        also have "\<dots> = name # start_calls I cb (ws(name \<mapsto> w')) names"
          by (simp only: Cons.IH[OF d])
        also have "\<dots> = name # start_calls I cb ws names"
          by (simp only: start_calls_upd_other[OF n])
        also have "\<dots> = start_calls I cb ws (name # names)"
          using Some True s None by (simp add: start_calls_Cons start_fails_def enabled_in_def)
        finally show ?thesis .
      qed
    qed
  qed
qed

lemma StartAll_loop_error:
  "distinct names \<Longrightarrow>
   fst (StartAll_loop I cb names ws st) =
     (case first_start_failure I cb ws names of None \<Rightarrow> None
      | Some name \<Rightarrow> start_error I cb ws name)"
proof (induction names arbitrary: ws st)
  case Nil
  then show ?case by (simp add: first_start_failure_def)
next
  case (Cons name names)
  then have d: "distinct names" and n: "name \<notin> set names" by simp_all
  show ?case
  proof (cases "ws name")
    case None
    then show ?thesis
      using Cons.IH[OF d] by (simp add: first_start_failure_Cons start_fails_def)
  next
    case (Some w)
    show ?thesis
    proof (cases "Enabled (GetConfig I w)")
      case False
      then show ?thesis
        using Some Cons.IH[OF d] by (simp add: first_start_failure_Cons start_fails_def)
    next
      case True
      obtain res w' where s: "Start I cb w = (res, w')" by (cases "Start I cb w")
      show ?thesis
      proof (cases res)
        case (Some err)
        then show ?thesis
          using \<open>ws name = Some w\<close> True s
          by (simp add: first_start_failure_Cons start_fails_def start_error_def)
      next
        case None
        have "fst (StartAll_loop I cb (name # names) ws st)
              = fst (StartAll_loop I cb names (ws(name \<mapsto> w')) True)"
          using Some True s None by (simp split: prod.splits)
        also have "\<dots> = (case first_start_failure I cb (ws(name \<mapsto> w')) names of None \<Rightarrow> None
                           | Some k \<Rightarrow> start_error I cb (ws(name \<mapsto> w')) k)"
          by (simp only: Cons.IH[OF d])
        also have "\<dots> = (case first_start_failure I cb ws names of None \<Rightarrow> None
                           | Some k \<Rightarrow> start_error I cb ws k)"
        proof (cases "first_start_failure I cb ws names")
          case None
          then show ?thesis by (simp add: first_start_failure_upd_other[OF n])
        next
          case (Some k)
          then have "k \<in> set names"
            using first_start_failure_Some by blast
          then have "k \<noteq> name" using n by auto
          then show ?thesis
            using Some by (simp add: first_start_failure_upd_other[OF n] start_error_upd_other)
        qed
        also have "\<dots> = (case first_start_failure I cb ws (name # names) of None \<Rightarrow> None
                           | Some k \<Rightarrow> start_error I cb ws k)"
          using \<open>ws name = Some w\<close> True s None
          by (simp add: first_start_failure_Cons start_fails_def)
        finally show ?thesis .
      qed
    qed
  qed
qed

lemma StartAll_loop_watchers:
  "distinct names \<Longrightarrow>
   fst (snd (StartAll_loop I cb names ws st)) n =
     (if n \<in> set (start_calls I cb ws names) then map_option (started I cb) (ws n) else ws n)"
proof (induction names arbitrary: ws st)
  case Nil
  then show ?case by (simp add: start_calls_def first_start_failure_def)
next
  case (Cons name names)
  then have d: "distinct names" and nn: "name \<notin> set names" by simp_all
  have sub: "set (start_calls I cb ws names) \<subseteq> set names"
    by (rule start_calls_subset)
  show ?case
  proof (cases "ws name")
    case None
    then show ?thesis
      using Cons.IH[OF d, of ws st] by (simp add: start_calls_Cons start_fails_def enabled_in_def)
  next
    case (Some w)
    show ?thesis
    proof (cases "Enabled (GetConfig I w)")
      case False
      then show ?thesis
        using Some Cons.IH[OF d, of ws st] sub nn
        by (auto simp add: start_calls_Cons start_fails_def enabled_in_def)
    next
      case True
      obtain res w' where s: "Start I cb w = (res, w')" by (cases "Start I cb w")
      have st': "started I cb w = w'" using s by (simp add: started_def)
      show ?thesis
      proof (cases res)
        case (Some err)
        then show ?thesis
          using \<open>ws name = Some w\<close> True s st'
          by (auto simp add: start_calls_Cons start_fails_def)
      next
        case None
        have "fst (snd (StartAll_loop I cb (name # names) ws st)) n
              = fst (snd (StartAll_loop I cb names (ws(name \<mapsto> w')) True)) n"
          using Some True s None by (simp split: prod.splits)
        also have "\<dots> = (if n \<in> set (start_calls I cb (ws(name \<mapsto> w')) names)
                          then map_option (started I cb) ((ws(name \<mapsto> w')) n)
                          else (ws(name \<mapsto> w')) n)"
          using Cons.IH[OF d] .
        also have "\<dots> = (if n \<in> set (start_calls I cb ws names)
                          then map_option (started I cb) ((ws(name \<mapsto> w')) n)
                          else (ws(name \<mapsto> w')) n)"
          by (simp only: start_calls_upd_other[OF nn])
        also have "\<dots> = (if n \<in> set (start_calls I cb ws (name # names))
                          then map_option (started I cb) (ws n) else ws n)"
          using \<open>ws name = Some w\<close> True s None st' sub nn
          by (auto simp add: start_calls_Cons start_fails_def enabled_in_def)
        finally show ?thesis .
      qed
    qed
  qed
qed

lemma two_watchers_range: "map_range (watchers two_watchers) [''sonicpi-osc'', ''tidal-ghci'']"
  by (auto simp: map_range_def two_watchers_def RegisterWatcher_def SetCallback_def
      NewWatcherManager_def dom_def)

lemma StopAll_result:
  assumes "map_range (watchers wm) order"
    and "StopAll I order wm = (err, wm', calls)"
  shows "calls = filter (running_in I (watchers wm)) order
    \<and> set calls = {name. running_in I (watchers wm) name}
    \<and> distinct calls
    \<and> \<not> wm_running wm'
    \<and> err = last_stop_error I (watchers wm) order None
    \<and> (err = None \<longleftrightarrow> (\<forall>name. \<not> stop_fails I (watchers wm) name))
    \<and> (\<forall>name. watchers wm' name = map_option (stopped I) (watchers wm name))"
proof -
  have d: "distinct order" and s: "set order = dom (watchers wm)"
    using assms(1) by (simp_all add: map_range_def)
  obtain e ws cs where l: "StopAll_loop I order (watchers wm) None = (e, ws, cs)"
    by (cases "StopAll_loop I order (watchers wm) None")
  have r: "err = e" "wm' = wm\<lparr>watchers := ws, wm_running := False\<rparr>" "calls = cs"
    using assms(2) l by (simp_all add: StopAll_def)
  have c: "calls = filter (running_in I (watchers wm)) order"
    using StopAll_loop_calls[OF d, of I "watchers wm" None] l r by simp
  have e: "err = last_stop_error I (watchers wm) order None"
    using StopAll_loop_error[OF d, of I "watchers wm" None] l r by simp
  have w: "ws n = (if n \<in> set order then map_option (stopped I) (watchers wm n) else watchers wm n)" for n
    using StopAll_loop_watchers[OF d, of I "watchers wm" None n] l by simp
  have w': "watchers wm' n = map_option (stopped I) (watchers wm n)" for n
  proof (cases "n \<in> set order")
    case True
    then show ?thesis using w[of n] r by simp
  next
    case False
    then have "watchers wm n = None" using s by (auto simp: dom_def)
    then show ?thesis using w[of n] r False by simp
  qed
  have sc: "set calls = {name. running_in I (watchers wm) name}"
  proof -
    have "running_in I (watchers wm) n \<Longrightarrow> n \<in> set order" for n
      using s by (auto simp: running_in_def dom_def split: option.splits)
    then show ?thesis using c by auto
  qed
  have en: "err = None \<longleftrightarrow> (\<forall>name. \<not> stop_fails I (watchers wm) name)"
  proof (cases "rev (filter (stop_fails I (watchers wm)) order)")
    case Nil
    then have f: "filter (stop_fails I (watchers wm)) order = []" by simp
    have "\<not> stop_fails I (watchers wm) n" for n
    proof
      assume a: "stop_fails I (watchers wm) n"
      then have "n \<in> set order"
        using s by (auto simp: stop_fails_def dom_def split: option.splits)
      then have "n \<in> set (filter (stop_fails I (watchers wm)) order)" using a by simp
      then show False using f by simp
    qed
    then show ?thesis using e Nil by (simp add: last_stop_error_def)
  next
    case (Cons n ns)
    then have "n \<in> set (filter (stop_fails I (watchers wm)) order)"
      by (metis list.set_intros(1) set_rev)
    then have sf: "stop_fails I (watchers wm) n" by simp
    then have "stop_error I (watchers wm) n \<noteq> None"
      by (auto simp: stop_fails_def stop_error_def split: option.splits)
    then show ?thesis using e Cons sf by (auto simp add: last_stop_error_def)
  qed
  show ?thesis using c sc d e en w' r by simp
qed

text \<open>Claim C7. For every order in which the loop may range over the registry,
  \<^verbatim>\<open>StopAll\<close> calls \<^verbatim>\<open>Stop\<close> once on each registered watcher that is running, whether or
  not an earlier \<^verbatim>\<open>Stop\<close> failed; it leaves the manager's running flag false; and it
  returns the error of the last \<^verbatim>\<open>Stop\<close> that failed, wrapped with the watcher's name,
  or \<^verbatim>\<open>nil\<close> when none failed.\<close>

theorem StopAll_continues:
  assumes "map_range (watchers wm) order"
    and "StopAll I order wm = (err, wm', calls)"
  shows "calls = filter (running_in I (watchers wm)) order
    \<and> set calls = {name. running_in I (watchers wm) name}
    \<and> distinct calls
    \<and> \<not> wm_running wm'
    \<and> err = last_stop_error I (watchers wm) order None
    \<and> (err = None \<longleftrightarrow> (\<forall>name. \<not> stop_fails I (watchers wm) name))
    \<and> (\<forall>name. watchers wm' name = map_option (stopped I) (watchers wm name))"
  using assms by (rule StopAll_result)

text \<open>An OSC listener whose socket fails to close and a running GHCi watcher: both are
  stopped and the error is returned.\<close>

theorem StopAll_continues_witness:
  "map_range (watchers two_running) [''sonicpi-osc'', ''tidal-ghci'']
   \<and> snd (snd (StopAll (concrete sys_close_fails) [''sonicpi-osc'', ''tidal-ghci''] two_running))
       = [''sonicpi-osc'', ''tidal-ghci'']
   \<and> fst (StopAll (concrete sys_close_fails) [''sonicpi-osc'', ''tidal-ghci''] two_running) \<noteq> None
   \<and> \<not> wm_running (fst (snd (StopAll (concrete sys_close_fails) [''sonicpi-osc'', ''tidal-ghci''] two_running)))"
proof -
  let ?I = "concrete sys_close_fails :: (nat watcher, nat) ExecutionWatcher"
  let ?order = "[''sonicpi-osc'', ''tidal-ghci'']"
  have ws: "watchers two_running =
      [''sonicpi-osc'' \<mapsto> snd (watcher_Start sys_ok (Some 0) (OSC (NewOSCWatcher 4559 []))),
       ''tidal-ghci'' \<mapsto> snd (watcher_Start sys_ok (Some 0) (GHCi NewGHCiWatcher))]"
    by (simp add: two_running_def two_watchers_def StartAll_def RegisterWatcher_def
        SetCallback_def NewWatcherManager_def concrete_def NewOSCWatcher_def NewGHCiWatcher_def
        OSCWatcher_GetConfig_def GHCiWatcher_GetConfig_def OSCWatcher_Start_def
        GHCiWatcher_Start_def sys_ok_def option_or_empty_def fun_upd_twist)
  have h: "map_range (watchers two_running) ?order"
    unfolding ws by (auto simp: map_range_def dom_def)
  obtain err wm' calls where r: "StopAll ?I ?order two_running = (err, wm', calls)"
    by (cases "StopAll ?I ?order two_running")
  have run: "filter (running_in ?I (watchers two_running)) ?order = ?order"
    unfolding ws
    by (simp add: running_in_def concrete_def OSCWatcher_Start_def GHCiWatcher_Start_def
        NewOSCWatcher_def NewGHCiWatcher_def sys_ok_def option_or_empty_def
        OSCWatcher_IsRunning_def GHCiWatcher_IsRunning_def)
  have fails: "stop_fails ?I (watchers two_running) ''sonicpi-osc''"
    unfolding ws
    by (simp add: stop_fails_def concrete_def OSCWatcher_Start_def
        NewOSCWatcher_def sys_ok_def sys_close_fails_def OSCWatcher_Stop_def
        OSCWatcher_IsRunning_def)
  show ?thesis
    using StopAll_continues[OF h r] h r run fails by auto
qed

lemma StartAll_result:
  assumes "map_range (watchers wm) order"
    and "StartAll I order wm = (err, wm', calls)"
  shows "(wm_callback wm = None \<longrightarrow>
            err = Some (Errorf ''no callback function set'') \<and> wm' = wm \<and> calls = [])
    \<and> (wm_callback wm \<noteq> None \<longrightarrow>
          calls = start_calls I (wm_callback wm) (watchers wm) order
        \<and> distinct calls
        \<and> (\<forall>name \<in> set calls. enabled_in I (watchers wm) name)
        \<and> err = (case first_start_failure I (wm_callback wm) (watchers wm) order of
                   None \<Rightarrow> None
                 | Some name \<Rightarrow> start_error I (wm_callback wm) (watchers wm) name)
        \<and> (err = None \<longrightarrow> calls = filter (enabled_in I (watchers wm)) order
                           \<and> set calls = {name. enabled_in I (watchers wm) name})
        \<and> (\<forall>name. watchers wm' name =
               (if name \<in> set calls
                then map_option (started I (wm_callback wm)) (watchers wm name)
                else watchers wm name))
        \<and> (\<forall>name w. watchers wm name = Some w \<and> \<not> Enabled (GetConfig I w)
               \<longrightarrow> watchers wm' name = Some w))"
proof -
  let ?cb = "wm_callback wm"
  let ?ws = "watchers wm"
  have A: "err = Some (Errorf ''no callback function set'') \<and> wm' = wm \<and> calls = []"
    if "wm_callback wm = None"
    using assms(2) that by (simp add: StartAll_def)
  have B: "calls = start_calls I ?cb ?ws order
        \<and> distinct calls
        \<and> (\<forall>name \<in> set calls. enabled_in I ?ws name)
        \<and> err = (case first_start_failure I ?cb ?ws order of
                   None \<Rightarrow> None
                 | Some name \<Rightarrow> start_error I ?cb ?ws name)
        \<and> (err = None \<longrightarrow> calls = filter (enabled_in I ?ws) order
                           \<and> set calls = {name. enabled_in I ?ws name})
        \<and> (\<forall>name. watchers wm' name =
               (if name \<in> set calls
                then map_option (started I ?cb) (?ws name)
                else ?ws name))
        \<and> (\<forall>name w. ?ws name = Some w \<and> \<not> Enabled (GetConfig I w)
               \<longrightarrow> watchers wm' name = Some w)"
    if cb: "wm_callback wm \<noteq> None"
  proof -
  have d: "distinct order" and s: "set order = dom ?ws"
    using assms(1) by (simp_all add: map_range_def)
  obtain e ws st cs where l: "StartAll_loop I ?cb order ?ws False = (e, ws, st, cs)"
    by (cases "StartAll_loop I ?cb order ?ws False") auto
  have r: "err = e" "watchers wm' = ws" "calls = cs"
    using assms(2) l cb by (auto simp add: StartAll_def split: option.splits)
  have c: "calls = start_calls I ?cb ?ws order"
    using StartAll_loop_calls[OF d, of I ?cb ?ws False] l r by simp
  have tw: "distinct (takeWhile (\<lambda>n. \<not> start_fails I ?cb ?ws n) order)"
    using d by (rule distinct_takeWhile)
  have dc: "distinct calls"
  proof (cases "first_start_failure I ?cb ?ws order")
    case None
    then show ?thesis using c tw by (simp add: start_calls_def)
  next
    case (Some k)
    then have "start_fails I ?cb ?ws k" using first_start_failure_Some by blast
    then have "k \<notin> set (takeWhile (\<lambda>n. \<not> start_fails I ?cb ?ws n) order)"
      by (auto dest: set_takeWhileD)
    then show ?thesis using c tw Some by (simp add: start_calls_def)
  qed
  have en: "\<forall>name \<in> set calls. enabled_in I ?ws name"
  proof
    fix name assume "name \<in> set calls"
    then consider "enabled_in I ?ws name" | "first_start_failure I ?cb ?ws order = Some name"
      using c by (auto simp: start_calls_def split: option.splits)
    then show "enabled_in I ?ws name"
    proof cases
      case 1 then show ?thesis .
    next
      case 2
      then have "start_fails I ?cb ?ws name" using first_start_failure_Some by blast
      then show ?thesis by (auto simp: start_fails_def enabled_in_def split: option.splits)
    qed
  qed
  have e: "err = (case first_start_failure I ?cb ?ws order of None \<Rightarrow> None
                 | Some name \<Rightarrow> start_error I ?cb ?ws name)"
    using StartAll_loop_error[OF d, of I ?cb ?ws False] l r by simp
  have w: "\<forall>name. watchers wm' name =
               (if name \<in> set calls then map_option (started I ?cb) (?ws name) else ?ws name)"
    using StartAll_loop_watchers[OF d, of I ?cb ?ws False] l r c by simp
  have dis: "\<forall>name w. ?ws name = Some w \<and> \<not> Enabled (GetConfig I w) \<longrightarrow> watchers wm' name = Some w"
  proof (intro allI impI)
    fix name w assume a: "?ws name = Some w \<and> \<not> Enabled (GetConfig I w)"
    then have "\<not> enabled_in I ?ws name" by (simp add: enabled_in_def)
    then have "name \<notin> set calls" using en by blast
    then show "watchers wm' name = Some w" using w a by simp
  qed
  have ok: "calls = filter (enabled_in I ?ws) order \<and> set calls = {name. enabled_in I ?ws name}"
    if "err = None"
  proof -
    have nf: "first_start_failure I ?cb ?ws order = None"
    proof (rule ccontr)
      assume "first_start_failure I ?cb ?ws order \<noteq> None"
      then obtain k where k: "first_start_failure I ?cb ?ws order = Some k" by blast
      then have "start_fails I ?cb ?ws k" using first_start_failure_Some by blast
      then have "start_error I ?cb ?ws k \<noteq> None"
        by (auto simp: start_fails_def start_error_def split: option.splits)
      then show False using e k \<open>err = None\<close> by simp
    qed
    then have "filter (start_fails I ?cb ?ws) order = []"
      by (simp add: first_start_failure_def split: list.splits)
    then have "\<forall>n \<in> set order. \<not> start_fails I ?cb ?ws n"
      by (simp add: filter_empty_conv)
    then have ta: "takeWhile (\<lambda>n. \<not> start_fails I ?cb ?ws n) order = order"
      by (simp add: takeWhile_eq_all_conv)
    have f: "calls = filter (enabled_in I ?ws) order"
      unfolding c start_calls_def ta nf by simp
    have "enabled_in I ?ws n \<Longrightarrow> n \<in> set order" for n
      using s by (auto simp: enabled_in_def dom_def split: option.splits)
    then have "set calls = {name. enabled_in I ?ws name}" using f by auto
    then show ?thesis using f by simp
  qed
  show ?thesis using c dc en e ok w dis by blast
  qed
  show ?thesis using A B by blast
qed

text \<open>Claim C3, as the code has it. With no callback set, \<^verbatim>\<open>StartAll\<close> returns an error
  and calls no \<^verbatim>\<open>Start\<close>. With a callback, it calls \<^verbatim>\<open>Start\<close> only on registered watchers
  whose configuration is enabled, once each, in the order of the loop and up to the first
  \<^verbatim>\<open>Start\<close> that fails, whose error it returns; when it returns no error it has called
  \<^verbatim>\<open>Start\<close> on exactly the enabled watchers. A watcher that is not enabled is left as it
  was, so \<^verbatim>\<open>StartAll\<close> never makes it running.\<close>

theorem StartAll_enabled_until_failure:
  assumes "map_range (watchers wm) order"
    and "StartAll I order wm = (err, wm', calls)"
  shows "(wm_callback wm = None \<longrightarrow>
            err = Some (Errorf ''no callback function set'') \<and> wm' = wm \<and> calls = [])
    \<and> (wm_callback wm \<noteq> None \<longrightarrow>
          calls = start_calls I (wm_callback wm) (watchers wm) order
        \<and> distinct calls
        \<and> (\<forall>name \<in> set calls. enabled_in I (watchers wm) name)
        \<and> err = (case first_start_failure I (wm_callback wm) (watchers wm) order of
                   None \<Rightarrow> None
                 | Some name \<Rightarrow> start_error I (wm_callback wm) (watchers wm) name)
        \<and> (err = None \<longrightarrow> calls = filter (enabled_in I (watchers wm)) order
                           \<and> set calls = {name. enabled_in I (watchers wm) name})
        \<and> (\<forall>name. watchers wm' name =
               (if name \<in> set calls
                then map_option (started I (wm_callback wm)) (watchers wm name)
                else watchers wm name))
        \<and> (\<forall>name w. watchers wm name = Some w \<and> \<not> Enabled (GetConfig I w)
               \<longrightarrow> watchers wm' name = Some w))"
  using assms by (rule StartAll_result)

text \<open>The mock watcher of the tests, \<^verbatim>\<open>A\<close> enabled and \<^verbatim>\<open>B\<close> disabled.\<close>

theorem StartAll_enabled_until_failure_witness:
  "map_range (watchers mock_manager) [''A'', ''B'']
   \<and> StartAll mock [''A'', ''B''] (SetCallback None mock_manager)
       = (Some (Errorf ''no callback function set''), SetCallback None mock_manager, [])
   \<and> fst (StartAll mock [''A'', ''B''] mock_manager) = None
   \<and> snd (snd (StartAll mock [''A'', ''B''] mock_manager)) = [''A'']
   \<and> watchers (fst (snd (StartAll mock [''A'', ''B''] mock_manager))) ''B''
       = Some (mock_watcher False)
   \<and> \<not> mock_running (mock_watcher False)"
proof -
  let ?order = "[''A'', ''B'']"
  have ws: "watchers mock_manager = [''A'' \<mapsto> mock_watcher True, ''B'' \<mapsto> mock_watcher False]"
    by (simp add: mock_manager_def RegisterWatcher_def SetCallback_def NewWatcherManager_def)
  have cb: "wm_callback mock_manager = Some 0"
    by (simp add: mock_manager_def RegisterWatcher_def SetCallback_def NewWatcherManager_def)
  have h: "map_range (watchers mock_manager) ?order"
    unfolding ws by (auto simp: map_range_def dom_def)
  have h0: "map_range (watchers (SetCallback None mock_manager)) ?order"
    using h by (simp add: SetCallback_def)
  obtain e0 m0 c0 where r0: "StartAll mock ?order (SetCallback None mock_manager) = (e0, m0, c0)"
    by (cases "StartAll mock ?order (SetCallback None mock_manager)")
  obtain e m c where r: "StartAll mock ?order mock_manager = (e, m, c)"
    by (cases "StartAll mock ?order mock_manager")
  have nf: "first_start_failure mock (Some 0) (watchers mock_manager) ?order = None"
    unfolding ws
    by (simp add: first_start_failure_def start_fails_def mock_def MockWatcher_Start_def)
  have en: "filter (enabled_in mock (watchers mock_manager)) ?order = [''A'']"
    unfolding ws by (simp add: enabled_in_def mock_def mock_watcher_def)
  have b: "watchers mock_manager ''B'' = Some (mock_watcher False)
           \<and> \<not> Enabled (GetConfig mock (mock_watcher False))"
    unfolding ws by (simp add: mock_def mock_watcher_def)
  have "e0 = Some (Errorf ''no callback function set'') \<and> m0 = SetCallback None mock_manager \<and> c0 = []"
    using StartAll_enabled_until_failure[OF h0 r0] by (simp add: SetCallback_def)
  moreover have "e = None \<and> c = [''A''] \<and> watchers m ''B'' = Some (mock_watcher False)"
    using StartAll_enabled_until_failure[OF h r] cb nf en b by auto
  moreover have "\<not> mock_running (mock_watcher False)" by (simp add: mock_watcher_def)
  ultimately show ?thesis using h r0 r by simp
qed

text \<open>Claim C3 as stated fails: with the UDP port taken and no \<^verbatim>\<open>ghci\<close> to run, the first
  \<^verbatim>\<open>Start\<close> fails and \<^verbatim>\<open>StartAll\<close> returns without calling \<^verbatim>\<open>Start\<close> on the other enabled
  watcher, whichever of the two the loop visits first.\<close>

theorem StartAll_stops_at_failure_counterexample:
  "wm_callback two_watchers \<noteq> None
   \<and> enabled_in (concrete sys_busy) (watchers two_watchers) ''tidal-ghci''
   \<and> ''tidal-ghci'' \<notin> set (snd (snd (StartAll (concrete sys_busy)
          [''sonicpi-osc'', ''tidal-ghci''] two_watchers)))
   \<and> enabled_in (concrete sys_busy) (watchers two_watchers) ''sonicpi-osc''
   \<and> ''sonicpi-osc'' \<notin> set (snd (snd (StartAll (concrete sys_busy)
          [''tidal-ghci'', ''sonicpi-osc''] two_watchers)))"
  by (simp add: two_watchers_def StartAll_def RegisterWatcher_def
        SetCallback_def NewWatcherManager_def concrete_def NewOSCWatcher_def NewGHCiWatcher_def
        OSCWatcher_GetConfig_def GHCiWatcher_GetConfig_def OSCWatcher_Start_def
        GHCiWatcher_Start_def sys_ok_def sys_busy_def option_or_empty_def enabled_in_def)

subsection \<open>The service and the Start of a running watcher\<close>

text \<open>Claim C2, as the code has it. \<^verbatim>\<open>Stop\<close> of a running service sets the service's
  running flag to false when \<^verbatim>\<open>StopAll\<close> returns no error. When a \<^verbatim>\<open>Stop\<close> of a watcher
  fails, \<^verbatim>\<open>StopAll\<close> returns an error, the service returns it wrapped and its running
  flag stays true. In both cases every watcher has been through \<^verbatim>\<open>StopAll\<close> and the
  manager's own running flag is false.\<close>

theorem Service_Stop_flag:
  assumes "ws_running ws"
    and "map_range (watchers (manager ws)) order"
    and "Service_Stop I order ws = (err, ws')"
  shows "((\<forall>name. \<not> stop_fails I (watchers (manager ws)) name)
            \<longrightarrow> err = None \<and> \<not> ws_running ws')
    \<and> ((\<exists>name. stop_fails I (watchers (manager ws)) name)
            \<longrightarrow> ws_running ws'
              \<and> (\<exists>e. last_stop_error I (watchers (manager ws)) order None = Some e
                       \<and> err = Some (wrap ''failed to stop watchers'' e)))
    \<and> \<not> wm_running (manager ws')
    \<and> (\<forall>name. watchers (manager ws') name
                = map_option (stopped I) (watchers (manager ws) name))"
proof -
  obtain e wm cs where r: "StopAll I order (manager ws) = (e, wm, cs)"
    by (cases "StopAll I order (manager ws)")
  note R = StopAll_result[OF assms(2) r]
  have m: "manager ws' = wm"
    using assms(1,3) r by (cases e) (auto simp: Service_Stop_def)
  have ok: "err = None \<and> \<not> ws_running ws'" if "e = None"
    using assms(1,3) r that by (auto simp: Service_Stop_def)
  have bad: "ws_running ws' \<and> err = Some (wrap ''failed to stop watchers'' x)" if "e = Some x" for x
    using assms(1,3) r that by (auto simp: Service_Stop_def)
  have A: "err = None \<and> \<not> ws_running ws'"
    if "\<forall>name. \<not> stop_fails I (watchers (manager ws)) name"
    using R that ok by blast
  have B: "ws_running ws'
              \<and> (\<exists>e. last_stop_error I (watchers (manager ws)) order None = Some e
                       \<and> err = Some (wrap ''failed to stop watchers'' e))"
    if "\<exists>name. stop_fails I (watchers (manager ws)) name"
  proof -
    have "e \<noteq> None" using R that by blast
    then obtain x where x: "e = Some x" by blast
    then have "last_stop_error I (watchers (manager ws)) order None = Some x" using R by simp
    then show ?thesis using bad[OF x] by blast
  qed
  show ?thesis using A B R m by blast
qed

lemmas service_example_defs =
  running_service_def enabled_osc_service_def NewWatcherService_def NewConfigManager_def
  DefaultGlobalConfig_def EnableWatcher_def SetWatcherConfig_def registerWatchers_def
  RegisterWatcher_def SetCallback_def NewWatcherManager_def createSonicPiOSCWatcher_def
  createSonicPiFileWatcher_def createTidalGHCiWatcher_def option_or_empty_def
  Service_Start_def GetEnabledWatchers_def concrete_def

lemma running_service_watchers:
  "watchers (manager running_service) =
     [''sonicpi-osc'' \<mapsto> snd (watcher_Start sys_ok (Some 0) (OSC (NewOSCWatcher 4559 []))),
      ''tidal-ghci'' \<mapsto> GHCi NewGHCiWatcher]"
  by (simp add: service_example_defs OSCWatcher_Start_def sys_ok_def NewOSCWatcher_def
      fun_upd_twist)

lemma running_service_running: "ws_running running_service"
  by (simp add: service_example_defs OSCWatcher_Start_def sys_ok_def NewOSCWatcher_def)

lemma running_service_range:
  "map_range (watchers (manager running_service)) [''sonicpi-osc'', ''tidal-ghci'']"
  unfolding running_service_watchers by (auto simp: map_range_def dom_def)

lemma osc_stop_fails:
  "stop_fails (concrete sys_close_fails) (watchers (manager running_service)) ''sonicpi-osc''"
  unfolding running_service_watchers
  by (simp add: stop_fails_def concrete_def OSCWatcher_Start_def NewOSCWatcher_def sys_ok_def
      sys_close_fails_def OSCWatcher_Stop_def OSCWatcher_IsRunning_def)

lemma no_stop_fails:
  "\<not> stop_fails (concrete sys_ok) (watchers (manager running_service)) name"
  unfolding running_service_watchers
  by (simp add: stop_fails_def concrete_def OSCWatcher_Start_def NewOSCWatcher_def sys_ok_def
      OSCWatcher_Stop_def OSCWatcher_IsRunning_def GHCiWatcher_IsRunning_def NewGHCiWatcher_def)

text \<open>A service with the OSC listener enabled and started, stopped once with a socket
  that closes and once with one that does not.\<close>

theorem Service_Stop_flag_witness:
  "ws_running running_service
   \<and> map_range (watchers (manager running_service)) [''sonicpi-osc'', ''tidal-ghci'']
   \<and> fst (Service_Stop (concrete sys_ok) [''sonicpi-osc'', ''tidal-ghci''] running_service) = None
   \<and> \<not> ws_running (snd (Service_Stop (concrete sys_ok) [''sonicpi-osc'', ''tidal-ghci'']
                           running_service))
   \<and> fst (Service_Stop (concrete sys_close_fails) [''sonicpi-osc'', ''tidal-ghci'']
            running_service) \<noteq> None
   \<and> ws_running (snd (Service_Stop (concrete sys_close_fails) [''sonicpi-osc'', ''tidal-ghci'']
                         running_service))
   \<and> \<not> wm_running (manager (snd (Service_Stop (concrete sys_close_fails)
                         [''sonicpi-osc'', ''tidal-ghci''] running_service)))"
proof -
  let ?order = "[''sonicpi-osc'', ''tidal-ghci'']"
  obtain e1 s1 where r1: "Service_Stop (concrete sys_ok) ?order running_service = (e1, s1)"
    by (cases "Service_Stop (concrete sys_ok) ?order running_service")
  obtain e2 s2 where r2: "Service_Stop (concrete sys_close_fails) ?order running_service = (e2, s2)"
    by (cases "Service_Stop (concrete sys_close_fails) ?order running_service")
  have "e1 = None \<and> \<not> ws_running s1"
    using Service_Stop_flag[OF running_service_running running_service_range r1] no_stop_fails
    by blast
  moreover have "e2 \<noteq> None \<and> ws_running s2 \<and> \<not> wm_running (manager s2)"
    using Service_Stop_flag[OF running_service_running running_service_range r2] osc_stop_fails
    by blast
  ultimately show ?thesis
    using running_service_running running_service_range r1 r2 by simp
qed

text \<open>Claim C2 as stated fails: the socket of the OSC listener fails to close,
  \<^verbatim>\<open>StopAll\<close> returns the error, and the service is still marked running.\<close>

theorem Service_Stop_keeps_running_counterexample:
  "ws_running running_service
   \<and> fst (StopAll (concrete sys_close_fails) [''sonicpi-osc'', ''tidal-ghci'']
            (manager running_service)) \<noteq> None
   \<and> ws_running (snd (Service_Stop (concrete sys_close_fails) [''sonicpi-osc'', ''tidal-ghci'']
                         running_service))"
proof -
  have w: "watchers (manager running_service) ''sonicpi-osc''
           = Some (snd (watcher_Start sys_ok (Some 0) (OSC (NewOSCWatcher 4559 []))))"
    "watchers (manager running_service) ''tidal-ghci'' = Some (GHCi NewGHCiWatcher)"
    unfolding running_service_watchers by simp_all
  have e: "fst (StopAll (concrete sys_close_fails) [''sonicpi-osc'', ''tidal-ghci'']
            (manager running_service)) \<noteq> None"
    by (simp add: StopAll_def w concrete_def OSCWatcher_Start_def NewOSCWatcher_def sys_ok_def
        sys_close_fails_def OSCWatcher_Stop_def OSCWatcher_IsRunning_def
        GHCiWatcher_IsRunning_def NewGHCiWatcher_def split: prod.splits)
  then have "ws_running (snd (Service_Stop (concrete sys_close_fails)
      [''sonicpi-osc'', ''tidal-ghci''] running_service))"
    using running_service_running
    by (auto simp: Service_Stop_def split: prod.splits option.splits)
  then show ?thesis using running_service_running e by simp
qed

lemma int64_succ:
  assumes "sint (x::64 word) < 9223372036854775807"
  shows "sint (x + 1) = sint x + 1"
proof -
  have lo: "- (2 ^ 63) \<le> sint x" using sint_ge[of x] by simp
  have "sint (x + 1) = signed_take_bit 63 (sint x + 1)"
    by (simp add: sint_word_ariths)
  also have "\<dots> = sint x + 1"
    by (rule signed_take_bit_int_eq_self) (use lo assms in simp_all)
  finally show ?thesis .
qed

lemma handleExecutionEvent_cases:
  assumes "handleExecutionEvent ext event ws = (panic, ws')"
  shows "totalExecutions ws' = totalExecutions ws + 1
    \<and> lastExecution ws' = Timestamp event
    \<and> autoCommit ws' = autoCommit ws
    \<and> (\<not> autoCommit ws \<longrightarrow> totalCommits ws' = totalCommits ws \<and> panic = None)
    \<and> (autoCommit ws \<and> commitMessageTmpl ws = None \<longrightarrow>
          totalCommits ws' = totalCommits ws \<and> panic \<noteq> None)
    \<and> (autoCommit ws \<and> commitMessageTmpl ws = Some tmpl
          \<and> generateCommitMessage ext tmpl event = Inl e \<longrightarrow>
          totalCommits ws' = totalCommits ws \<and> panic = None)
    \<and> (autoCommit ws \<and> commitMessageTmpl ws = Some tmpl
          \<and> generateCommitMessage ext tmpl event = Inr message
          \<and> fst (Commit ext (Content event) message (ToExecutionMetadata event)
                   (repository ws)) \<noteq> None \<longrightarrow>
          totalCommits ws' = totalCommits ws \<and> panic = None)
    \<and> (autoCommit ws \<and> commitMessageTmpl ws = Some tmpl
          \<and> generateCommitMessage ext tmpl event = Inr message
          \<and> fst (Commit ext (Content event) message (ToExecutionMetadata event)
                   (repository ws)) = None \<longrightarrow>
          totalCommits ws' = totalCommits ws + 1 \<and> panic = None)"
  using assms
  by (auto simp: handleExecutionEvent_def createAutoCommit_def wrap_def Let_def
      split: if_splits option.splits sum.splits prod.splits error.splits)

text \<open>Claim C1. One call of \<^verbatim>\<open>handleExecutionEvent\<close> adds one to the executions counter
  (an \<^verbatim>\<open>int64\<close>: the next number unless the counter is at its maximum, where it wraps) and
  records the event's timestamp, whatever the auto-commit flag is. It adds one to the
  commits counter when the flag is set, the template renders and \<^verbatim>\<open>Commit\<close> returns no
  error, and leaves that counter as it was in every other case: flag not set, no
  template (the call panics), rendering fails, \<^verbatim>\<open>Commit\<close> fails.\<close>

theorem handleExecutionEvent_counters:
  assumes "handleExecutionEvent ext event ws = (panic, ws')"
  shows "totalExecutions ws' = totalExecutions ws + 1
    \<and> (sint (totalExecutions ws) < 9223372036854775807 \<longrightarrow>
          sint (totalExecutions ws') = sint (totalExecutions ws) + 1)
    \<and> lastExecution ws' = Timestamp event
    \<and> autoCommit ws' = autoCommit ws
    \<and> (\<not> autoCommit ws \<longrightarrow> totalCommits ws' = totalCommits ws \<and> panic = None)
    \<and> (autoCommit ws \<and> commitMessageTmpl ws = None \<longrightarrow>
          totalCommits ws' = totalCommits ws \<and> panic \<noteq> None)
    \<and> (autoCommit ws \<and> commitMessageTmpl ws = Some tmpl
          \<and> generateCommitMessage ext tmpl event = Inl e \<longrightarrow>
          totalCommits ws' = totalCommits ws \<and> panic = None)
    \<and> (autoCommit ws \<and> commitMessageTmpl ws = Some tmpl
          \<and> generateCommitMessage ext tmpl event = Inr message
          \<and> fst (Commit ext (Content event) message (ToExecutionMetadata event)
                   (repository ws)) \<noteq> None \<longrightarrow>
          totalCommits ws' = totalCommits ws \<and> panic = None)
    \<and> (autoCommit ws \<and> commitMessageTmpl ws = Some tmpl
          \<and> generateCommitMessage ext tmpl event = Inr message
          \<and> fst (Commit ext (Content event) message (ToExecutionMetadata event)
                   (repository ws)) = None \<longrightarrow>
          totalCommits ws' = totalCommits ws + 1 \<and> totalCommits ws' \<noteq> totalCommits ws
          \<and> panic = None)"
proof -
  note C = handleExecutionEvent_cases[OF assms, of tmpl e message]
  have "sint (totalExecutions ws') = sint (totalExecutions ws) + 1"
    if "sint (totalExecutions ws) < 9223372036854775807"
    using C int64_succ[OF that] by simp
  moreover have "totalCommits ws + 1 \<noteq> totalCommits ws" by simp
  ultimately show ?thesis using C by auto
qed

lemma example_service_fields:
  "autoCommit enabled_osc_service" "commitMessageTmpl enabled_osc_service
     = Some ''Auto-commit: {{.Language}} execution in {{.Buffer}}''"
  "totalExecutions enabled_osc_service = 0" "totalCommits enabled_osc_service = 0"
  "repository enabled_osc_service = 0"
  by (simp_all add: enabled_osc_service_def NewWatcherService_def registerWatchers_def
      DefaultGlobalConfig_def Let_def)

text \<open>The event of the tests, on a service after \<^verbatim>\<open>Initialize\<close>, in each of the cases.\<close>

theorem handleExecutionEvent_counters_witness:
  "totalExecutions (snd (handleExecutionEvent ext_ok test_event enabled_osc_service)) = 1
   \<and> totalCommits (snd (handleExecutionEvent ext_ok test_event enabled_osc_service)) = 1
   \<and> lastExecution (snd (handleExecutionEvent ext_ok test_event enabled_osc_service))
       = 1700000000
   \<and> totalExecutions (snd (handleExecutionEvent ext_ok test_event
         (enabled_osc_service\<lparr>autoCommit := False\<rparr>))) = 1
   \<and> totalCommits (snd (handleExecutionEvent ext_ok test_event
         (enabled_osc_service\<lparr>autoCommit := False\<rparr>))) = 0
   \<and> totalCommits (snd (handleExecutionEvent ext_commit_fails test_event
         enabled_osc_service)) = 0
   \<and> totalCommits (snd (handleExecutionEvent ext_render_fails test_event
         enabled_osc_service)) = 0
   \<and> totalCommits (snd (handleExecutionEvent ext_ok test_event
         (enabled_osc_service\<lparr>commitMessageTmpl := None\<rparr>))) = 0"
proof -
  let ?t = "''Auto-commit: {{.Language}} execution in {{.Buffer}}''"
  let ?m = "''Auto-commit: sonicpi execution in test-buffer''"
  have r: "handleExecutionEvent x test_event s
           = (fst (handleExecutionEvent x test_event s), snd (handleExecutionEvent x test_event s))"
    for x :: "(nat, string) collaborators" and s :: "(nat watcher, nat, nat, string) WatcherService"
    by simp
  have g: "generateCommitMessage ext_ok ?t test_event = Inr ?m"
    "generateCommitMessage ext_commit_fails ?t test_event = Inr ?m"
    "generateCommitMessage ext_render_fails ?t test_event = Inl (Errorf ''can't evaluate field'')"
    by (simp_all add: generateCommitMessage_def ext_ok_def ext_commit_fails_def
        ext_render_fails_def test_event_def)
  have c: "fst (Commit ext_ok (Content test_event) ?m (ToExecutionMetadata test_event) 0) = None"
    "fst (Commit ext_commit_fails (Content test_event) ?m (ToExecutionMetadata test_event) 0)
       \<noteq> None"
    by (simp_all add: ext_ok_def ext_commit_fails_def)
  have ts: "Timestamp test_event = 1700000000" by (simp add: test_event_def)
  show ?thesis
    using handleExecutionEvent_counters[OF r, of ext_ok enabled_osc_service ?t "Errorf ''can't evaluate field''" ?m]
      handleExecutionEvent_counters[OF r, of ext_ok
        "enabled_osc_service\<lparr>autoCommit := False\<rparr>" ?t "Errorf ''can't evaluate field''" ?m]
      handleExecutionEvent_counters[OF r, of ext_commit_fails enabled_osc_service ?t "Errorf ''can't evaluate field''" ?m]
      handleExecutionEvent_counters[OF r, of ext_render_fails enabled_osc_service ?t
        "Errorf ''can't evaluate field''" ?m]
      handleExecutionEvent_counters[OF r, of ext_ok
        "enabled_osc_service\<lparr>commitMessageTmpl := None\<rparr>" ?t "Errorf ''can't evaluate field''" ?m]
      g c ts example_service_fields
    by simp
qed

lemma GetEnabledWatchers_loop_filter:
  "GetEnabledWatchers_loop ws names
     = filter (\<lambda>name. case ws name of None \<Rightarrow> False | Some c \<Rightarrow> Enabled c) names"
  by (induction names) (auto split: option.splits)

lemma GetEnabledWatchers_filter:
  "GetEnabledWatchers order cm = filter (config_enabled cm) order"
  by (simp add: GetEnabledWatchers_def GetEnabledWatchers_loop_filter config_enabled_def[abs_def])

lemma length_GetEnabledWatchers:
  assumes "map_range (Watchers (config cm)) order"
  shows "length (GetEnabledWatchers order cm) = card {name. config_enabled cm name}"
proof -
  have d: "distinct order" and s: "set order = dom (Watchers (config cm))"
    using assms by (simp_all add: map_range_def)
  have "config_enabled cm n \<Longrightarrow> n \<in> set order" for n
    using s by (auto simp: config_enabled_def dom_def split: option.splits)
  then have "{x. config_enabled cm x} \<inter> set order = {name. config_enabled cm name}" by auto
  then show ?thesis
    using distinct_length_filter[OF d, of "config_enabled cm"]
    by (simp add: GetEnabledWatchers_filter)
qed

text \<open>Claim C10. \<^verbatim>\<open>GetStats\<close> reports as active watchers the number of names whose
  configuration in the config manager is enabled, for every order in which
  \<^verbatim>\<open>GetEnabledWatchers\<close> may range over the configuration; the service's running flag and
  the manager with its watcher instances have no part in it.\<close>

theorem GetStats_ActiveWatchers:
  assumes "map_range (Watchers (config (configManager ws))) order"
  shows "ActiveWatchers (GetStats order ws) = card {name. config_enabled (configManager ws) name}
    \<and> ActiveWatchers (GetStats order (ws\<lparr>ws_running := r, manager := m\<rparr>))
        = ActiveWatchers (GetStats order ws)"
  using length_GetEnabledWatchers[OF assms] by (simp add: GetStats_def)

lemma enabled_osc_config:
  "Watchers (config (configManager enabled_osc_service)) =
     [''sonicpi-osc'' \<mapsto>
        \<lparr>cfg_Language = ''sonicpi'', cfg_Environment = ''sonic-pi'', Enabled = True,
         Options = [''osc_port'' \<mapsto> ''4559'', ''workspace_path'' \<mapsto> []]\<rparr>,
      ''sonicpi-files'' \<mapsto>
        \<lparr>cfg_Language = ''sonicpi'', cfg_Environment = ''sonic-pi-files'', Enabled = False,
         Options = [''workspace_path'' \<mapsto> [], ''poll_interval'' \<mapsto> ''1s'']\<rparr>,
      ''tidal-ghci'' \<mapsto>
        \<lparr>cfg_Language = ''tidal'', cfg_Environment = ''tidal-cycles'', Enabled = False,
         Options = [''ghci_command'' \<mapsto> ''ghci'', ''boot_file'' \<mapsto> ''BootTidal.hs'']\<rparr>]"
  by (simp add: enabled_osc_service_def NewWatcherService_def NewConfigManager_def
      DefaultGlobalConfig_def EnableWatcher_def SetWatcherConfig_def registerWatchers_def
      Let_def fun_upd_twist)

text \<open>One watcher enabled in the configuration, nothing started: one active watcher.\<close>

theorem GetStats_ActiveWatchers_witness:
  "map_range (Watchers (config (configManager enabled_osc_service)))
     [''tidal-ghci'', ''sonicpi-osc'', ''sonicpi-files'']
   \<and> ActiveWatchers (GetStats [''tidal-ghci'', ''sonicpi-osc'', ''sonicpi-files'']
        enabled_osc_service) = 1
   \<and> \<not> ws_running enabled_osc_service
   \<and> card {name. config_enabled (configManager enabled_osc_service) name} = 1
   \<and> ActiveWatchers (GetStats [''tidal-ghci'', ''sonicpi-osc'', ''sonicpi-files'']
        (enabled_osc_service\<lparr>ws_running := True, manager := NewWatcherManager\<rparr>)) = 1"
proof -
  let ?order = "[''tidal-ghci'', ''sonicpi-osc'', ''sonicpi-files'']"
  have h: "map_range (Watchers (config (configManager enabled_osc_service))) ?order"
    unfolding enabled_osc_config by (auto simp: map_range_def dom_def)
  have a: "ActiveWatchers (GetStats ?order enabled_osc_service) = 1"
    by (simp add: GetStats_def GetEnabledWatchers_def enabled_osc_config)
  have "\<not> ws_running enabled_osc_service"
    by (simp add: enabled_osc_service_def NewWatcherService_def registerWatchers_def Let_def)
  then show ?thesis
    using GetStats_ActiveWatchers[OF h, where r = True and m = NewWatcherManager] h a by simp
qed

text \<open>Claim C8. \<^verbatim>\<open>Start\<close> of a running OSC listener, file poller or GHCi watcher returns
  its "already running" error and the watcher as it was: the callback stored before and
  every other field.\<close>

theorem Start_while_running:
  "(osc_running w1 \<longrightarrow>
      OSCWatcher_Start sys callback w1 = (Some (Errorf ''watcher is already running''), w1))
   \<and> (fw_running w2 \<longrightarrow>
      FileWatcher_Start sys callback w2 = (Some (Errorf ''file watcher is already running''), w2))
   \<and> (ghci_running w3 \<longrightarrow>
      GHCiWatcher_Start sys callback w3
        = (Some (Errorf ''GHCi watcher is already running''), w3))
   \<and> (watcher_IsRunning w \<longrightarrow>
      fst (watcher_Start sys callback w) \<noteq> None \<and> snd (watcher_Start sys callback w) = w)"
proof -
  have "watcher_IsRunning w \<longrightarrow>
      fst (watcher_Start sys callback w) \<noteq> None \<and> snd (watcher_Start sys callback w) = w"
    by (cases w)
      (simp_all add: OSCWatcher_Start_def FileWatcher_Start_def GHCiWatcher_Start_def
        OSCWatcher_IsRunning_def FileWatcher_IsRunning_def GHCiWatcher_IsRunning_def)
  then show ?thesis
    by (simp add: OSCWatcher_Start_def FileWatcher_Start_def GHCiWatcher_Start_def)
qed

text \<open>The three watchers, started with one callback, then started again with another.\<close>

theorem Start_while_running_witness:
  "osc_running running_osc \<and> osc_callback running_osc = Some 0
   \<and> OSCWatcher_Start sys_busy (Some 1) running_osc
       = (Some (Errorf ''watcher is already running''), running_osc)
   \<and> fw_running running_files \<and> fw_callback running_files = Some 0
   \<and> FileWatcher_Start sys_busy (Some 1) running_files
       = (Some (Errorf ''file watcher is already running''), running_files)
   \<and> ghci_running running_ghci \<and> ghci_callback running_ghci = Some 0
   \<and> GHCiWatcher_Start sys_busy (Some 1) running_ghci
       = (Some (Errorf ''GHCi watcher is already running''), running_ghci)
   \<and> watcher_IsRunning (Files running_files)
   \<and> snd (watcher_Start sys_busy None (Files running_files)) = Files running_files"
proof -
  have a: "osc_running running_osc" "osc_callback running_osc = Some 0"
    by (simp_all add: running_osc_def OSCWatcher_Start_def sys_ok_def NewOSCWatcher_def)
  have b: "fw_running running_files" "fw_callback running_files = Some 0"
    by (simp_all add: running_files_def FileWatcher_Start_def sys_ok_def NewFileWatcher_def
        scanWorkspaceFiles_def)
  have c: "ghci_running running_ghci" "ghci_callback running_ghci = Some 0"
    by (simp_all add: running_ghci_def GHCiWatcher_Start_def sys_ok_def NewGHCiWatcher_def
        option_or_empty_def)
  have d: "watcher_IsRunning (Files running_files)"
    using b by (simp add: FileWatcher_IsRunning_def)
  show ?thesis
    using Start_while_running[of running_osc sys_busy "Some 1" running_files running_ghci
        "Files running_files"]
      Start_while_running[of running_osc sys_busy None running_files running_ghci
        "Files running_files"] a b c d
    by simp
qed

subsection \<open>The file poller and the watchers the constructors build\<close>

lemma createExecutionEvent_fields:
  "FilePath (createExecutionEvent sys p t) = p" "Timestamp (createExecutionEvent sys p t) = t"
  by (simp_all add: createExecutionEvent_def Let_def split: sum.splits prod.splits)

lemma check_visit_events_path:
  "event \<in> set (fst (check_visit sys e w)) \<Longrightarrow> FilePath event = we_path e"
  by (auto simp: check_visit_def Let_def createExecutionEvent_fields
      split: if_splits sum.splits option.splits)

lemma check_visit_lastModified_other:
  "p \<noteq> we_path e \<Longrightarrow> lastModified (snd (check_visit sys e w)) p = lastModified w p"
  by (auto simp: check_visit_def Let_def split: if_splits sum.splits option.splits)

lemma check_visit_frame:
  "fw_callback (snd (check_visit sys e w)) = fw_callback w"
  "fw_config (snd (check_visit sys e w)) = fw_config w"
  "fw_running (snd (check_visit sys e w)) = fw_running w"
  "stopChan (snd (check_visit sys e w)) = stopChan w"
  "fw_workspacePath (snd (check_visit sys e w)) = fw_workspacePath w"
  "pollInterval (snd (check_visit sys e w)) = pollInterval w"
  by (auto simp: check_visit_def Let_def split: if_splits sum.splits option.splits)

lemma check_visit_cong:
  assumes "lastModified w1 (we_path e) = lastModified w (we_path e)"
    and "fw_callback w1 = fw_callback w"
  shows "fst (check_visit sys e w1) = fst (check_visit sys e w)"
    and "lastModified (snd (check_visit sys e w1)) (we_path e)
         = lastModified (snd (check_visit sys e w)) (we_path e)"
  using assms
  by (auto simp: check_visit_def Let_def split: if_splits sum.splits option.splits)

lemma check_walk_Cons:
  "fst (check_walk sys (e # es) w)
     = fst (check_visit sys e w) @ fst (check_walk sys es (snd (check_visit sys e w)))"
  "snd (check_walk sys (e # es) w) = snd (check_walk sys es (snd (check_visit sys e w)))"
  by (simp_all split: prod.splits)

lemma check_walk_frame:
  "fw_callback (snd (check_walk sys es w)) = fw_callback w
   \<and> fw_config (snd (check_walk sys es w)) = fw_config w
   \<and> fw_running (snd (check_walk sys es w)) = fw_running w
   \<and> stopChan (snd (check_walk sys es w)) = stopChan w
   \<and> fw_workspacePath (snd (check_walk sys es w)) = fw_workspacePath w
   \<and> pollInterval (snd (check_walk sys es w)) = pollInterval w"
  by (induction es arbitrary: w)
    (simp_all add: check_walk_Cons check_visit_frame del: check_walk.simps(2))

lemma events_for_visit_same:
  "events_for (we_path e) (fst (check_visit sys e w)) = fst (check_visit sys e w)"
  unfolding events_for_def by (rule filter_True) (simp add: check_visit_events_path)

lemma events_for_visit_other:
  "p \<noteq> we_path e \<Longrightarrow> events_for p (fst (check_visit sys e w)) = []"
  unfolding events_for_def
  by (simp add: filter_empty_conv) (metis check_visit_events_path)

lemma events_for_append: "events_for p (xs @ ys) = events_for p xs @ events_for p ys"
  by (simp add: events_for_def)

lemma check_walk_not_visited:
  "p \<notin> we_path ` set es \<Longrightarrow>
   events_for p (fst (check_walk sys es w)) = []
   \<and> lastModified (snd (check_walk sys es w)) p = lastModified w p"
proof (induction es arbitrary: w)
  case Nil
  then show ?case by (simp add: events_for_def)
next
  case (Cons e es)
  then have ne: "p \<noteq> we_path e" and rest: "p \<notin> we_path ` set es" by auto
  show ?case
    using Cons.IH[OF rest, of "snd (check_visit sys e w)"]
    by (simp add: check_walk_Cons events_for_append events_for_visit_other[OF ne]
        check_visit_lastModified_other[OF ne] del: check_walk.simps(2))
qed

lemma check_walk_visited:
  "distinct (map we_path es) \<Longrightarrow> e \<in> set es \<Longrightarrow>
   events_for (we_path e) (fst (check_walk sys es w)) = fst (check_visit sys e w)
   \<and> lastModified (snd (check_walk sys es w)) (we_path e)
       = lastModified (snd (check_visit sys e w)) (we_path e)"
proof (induction es arbitrary: w)
  case Nil
  then show ?case by simp
next
  case (Cons x xs)
  then have d: "distinct (map we_path xs)" and nx: "we_path x \<notin> we_path ` set xs" by auto
  let ?w1 = "snd (check_visit sys x w)"
  show ?case
  proof (cases "x = e")
    case True
    then have "we_path e \<notin> we_path ` set xs" using nx by simp
    from check_walk_not_visited[OF this, of sys ?w1]
    show ?thesis
      using True
      by (simp add: check_walk_Cons events_for_append events_for_visit_same
          del: check_walk.simps(2))
  next
    case False
    then have e: "e \<in> set xs" using Cons.prems(2) by simp
    then have ne: "we_path e \<noteq> we_path x" using nx by (metis imageI)
    have lm: "lastModified ?w1 (we_path e) = lastModified w (we_path e)"
      using check_visit_lastModified_other[OF ne] .
    have cb: "fw_callback ?w1 = fw_callback w" by (simp add: check_visit_frame)
    show ?thesis
      using Cons.IH[OF d e, of ?w1] check_visit_cong[OF lm cb, of sys]
      by (simp add: check_walk_Cons events_for_append events_for_visit_other[OF ne]
          del: check_walk.simps(2))
  qed
qed

lemma scan_visit_frame:
  "fw_callback (scan_visit e w) = fw_callback w \<and> fw_config (scan_visit e w) = fw_config w
   \<and> fw_running (scan_visit e w) = fw_running w \<and> stopChan (scan_visit e w) = stopChan w
   \<and> fw_workspacePath (scan_visit e w) = fw_workspacePath w
   \<and> pollInterval (scan_visit e w) = pollInterval w"
  by (simp add: scan_visit_def split: sum.splits)

lemma scan_walk_frame:
  "fw_callback (scan_walk es w) = fw_callback w \<and> fw_config (scan_walk es w) = fw_config w
   \<and> fw_running (scan_walk es w) = fw_running w \<and> stopChan (scan_walk es w) = stopChan w
   \<and> fw_workspacePath (scan_walk es w) = fw_workspacePath w
   \<and> pollInterval (scan_walk es w) = pollInterval w"
  by (induction es arbitrary: w) (simp_all add: scan_visit_frame)

lemma scan_visit_relevant:
  "known_files_relevant w \<Longrightarrow> known_files_relevant (scan_visit e w)"
  by (auto simp: known_files_relevant_def scan_visit_def split: sum.splits if_splits)

lemma scan_walk_relevant:
  "known_files_relevant w \<Longrightarrow> known_files_relevant (scan_walk es w)"
  by (induction es arbitrary: w) (simp_all add: scan_visit_relevant)

lemma check_visit_relevant:
  "known_files_relevant w \<Longrightarrow> known_files_relevant (snd (check_visit sys e w))"
  by (auto simp: known_files_relevant_def check_visit_def Let_def
      split: sum.splits if_splits option.splits)

lemma check_walk_relevant:
  "known_files_relevant w \<Longrightarrow> known_files_relevant (snd (check_walk sys es w))"
  by (induction es arbitrary: w)
    (simp_all add: check_walk_Cons check_visit_relevant del: check_walk.simps(2))

lemma FileWatcher_Start_inv:
  assumes "watcher_inv (Files w)"
  shows "watcher_inv (Files (snd (FileWatcher_Start sys callback w)))"
proof -
  let ?w1 = "w\<lparr>fw_callback := callback, fw_running := True, stopChan := Some ChanOpen\<rparr>"
  have "known_files_relevant ?w1" using assms by (simp add: known_files_relevant_def)
  then have "known_files_relevant (scan_walk es ?w1)" for es by (rule scan_walk_relevant)
  then show ?thesis
    using assms scan_walk_frame[of _ ?w1]
    by (simp add: FileWatcher_Start_def scanWorkspaceFiles_def running_has_open_chan_def)
qed

lemma FileWatcher_Stop_inv:
  "watcher_inv (Files w) \<Longrightarrow> watcher_inv (Files (snd (FileWatcher_Stop w)))"
  by (auto simp: FileWatcher_Stop_def Let_def known_files_relevant_def
      running_has_open_chan_def split: option.splits chan.splits)

lemma checkForChanges_inv:
  "watcher_inv (Files w) \<Longrightarrow> watcher_inv (Files (snd (checkForChanges sys w)))"
  using check_walk_frame[of sys _ w] check_walk_relevant[of w sys]
  by (simp add: checkForChanges_def running_has_open_chan_def)

lemma SetPollInterval_inv:
  "watcher_inv (Files w) \<Longrightarrow> watcher_inv (Files (SetPollInterval sys interval w))"
  by (simp add: SetPollInterval_def known_files_relevant_def running_has_open_chan_def)

lemma OSCWatcher_Start_config:
  "osc_config (snd (OSCWatcher_Start sys callback w)) = osc_config w"
  by (simp add: OSCWatcher_Start_def Let_def split: sum.splits)

lemma OSCWatcher_Stop_config: "osc_config (snd (OSCWatcher_Stop sys w)) = osc_config w"
  by (simp add: OSCWatcher_Stop_def Let_def split: option.splits)

lemma updateBPM_config: "osc_config (updateBPM sys line w) = osc_config w"
  by (simp add: updateBPM_def Let_def split: sum.splits)

lemma processOSCLines_config: "osc_config (snd (processOSCLines sys ls w)) = osc_config w"
  by (induction ls arbitrary: w)
    (simp_all add: Let_def updateBPM_config case_prod_beta)

lemma GHCiWatcher_Start_config:
  "ghci_config (snd (GHCiWatcher_Start sys callback w)) = ghci_config w"
  by (simp add: GHCiWatcher_Start_def Let_def split: sum.splits)

lemma GHCiWatcher_Stop_config: "ghci_config (snd (GHCiWatcher_Stop w)) = ghci_config w"
  by (simp add: GHCiWatcher_Stop_def)

lemma updateCPS_config: "ghci_config (updateCPS sys line w) = ghci_config w"
  by (simp add: updateCPS_def Let_def split: sum.splits)

lemma createPatternExecutionEvent_config:
  "ghci_config (snd (createPatternExecutionEvent sys content success msg w)) = ghci_config w"
  by (simp add: createPatternExecutionEvent_def Let_def)

lemma processOutputLine_config:
  "ghci_config (snd (processOutputLine sys line w)) = ghci_config w"
  by (simp add: processOutputLine_def Let_def updateCPS_config
      createPatternExecutionEvent_config case_prod_beta)

lemma processErrorLine_config:
  "ghci_config (snd (processErrorLine sys line w)) = ghci_config w"
  by (simp add: processErrorLine_def Let_def createPatternExecutionEvent_config
      case_prod_beta)

lemma constructed_inv: "constructed w \<Longrightarrow> watcher_inv w"
  by (induction rule: constructed.induct)
    (simp_all add: NewOSCWatcher_def NewFileWatcher_def NewGHCiWatcher_def
      known_files_relevant_def running_has_open_chan_def)

lemma apply_op_inv: "watcher_inv w \<Longrightarrow> watcher_inv (apply_op op w)"
proof (cases op)
  case (OpStart sys callback)
  then show "watcher_inv w \<Longrightarrow> ?thesis"
    using FileWatcher_Start_inv
    by (cases w) (simp_all add: OSCWatcher_Start_config GHCiWatcher_Start_config)
next
  case (OpStop sys)
  then show "watcher_inv w \<Longrightarrow> ?thesis"
    using FileWatcher_Stop_inv
    by (cases w) (simp_all add: OSCWatcher_Stop_config GHCiWatcher_Stop_config)
next
  case (OpDatagram sys message)
  then show "watcher_inv w \<Longrightarrow> ?thesis"
    by (cases w) (simp_all add: processOSCMessage_def processOSCLines_config)
next
  case (OpTick sys)
  then show "watcher_inv w \<Longrightarrow> ?thesis"
    using checkForChanges_inv by (cases w) simp_all
next
  case (OpSetPollInterval sys interval)
  then show "watcher_inv w \<Longrightarrow> ?thesis"
    using SetPollInterval_inv by (cases w) simp_all
next
  case (OpOutputLine sys line)
  then show "watcher_inv w \<Longrightarrow> ?thesis"
    by (cases w) (simp_all add: processOutputLine_config)
next
  case (OpErrorLine sys line)
  then show "watcher_inv w \<Longrightarrow> ?thesis"
    by (cases w) (simp_all add: processErrorLine_config)
qed

lemma reachable_inv: "reachable w \<Longrightarrow> watcher_inv w"
  by (induction rule: reachable.induct) (simp_all add: constructed_inv apply_op_inv)

lemma reachable_Enabled: "reachable w \<Longrightarrow> Enabled (watcher_GetConfig w)"
  using reachable_inv[of w]
  by (cases w) (simp_all add: OSCWatcher_GetConfig_def FileWatcher_GetConfig_def
      GHCiWatcher_GetConfig_def)

lemma scan_walk_not_visited:
  "p \<notin> we_path ` set es \<Longrightarrow> lastModified (scan_walk es w) p = lastModified w p"
  by (induction es arbitrary: w) (auto simp: scan_visit_def split: sum.splits)

lemma scan_walk_visited:
  "distinct (map we_path es) \<Longrightarrow> WalkEntry p None (Inr t) \<in> set es \<Longrightarrow> isSonicPiFile p \<Longrightarrow>
   lastModified (scan_walk es w) p = Some t"
proof (induction es arbitrary: w)
  case Nil
  then show ?case by simp
next
  case (Cons x xs)
  then have d: "distinct (map we_path xs)" and nx: "we_path x \<notin> we_path ` set xs" by auto
  show ?case
  proof (cases "x = WalkEntry p None (Inr t)")
    case True
    then have "p \<notin> we_path ` set xs" using nx by simp
    then show ?thesis
      using True Cons.prems(3) scan_walk_not_visited[of p xs "scan_visit x w"]
      by (simp add: scan_visit_def)
  next
    case False
    then have "WalkEntry p None (Inr t) \<in> set xs" using Cons.prems(2) by simp
    then show ?thesis using Cons.IH[OF d _ Cons.prems(3)] by simp
  qed
qed

lemma scan_walk_only_lastModified:
  "scan_walk es w = w\<lparr>lastModified := lastModified (scan_walk es w)\<rparr>"
proof (induction es arbitrary: w)
  case Nil
  then show ?case by simp
next
  case (Cons e es)
  have "scan_visit e w = w\<lparr>lastModified := lastModified (scan_visit e w)\<rparr>"
    by (simp add: scan_visit_def split: sum.splits)
  then obtain m where m: "scan_visit e w = w\<lparr>lastModified := m\<rparr>" by metis
  have "scan_walk es (w\<lparr>lastModified := m\<rparr>)
        = (w\<lparr>lastModified := m\<rparr>)\<lparr>lastModified := lastModified (scan_walk es (w\<lparr>lastModified := m\<rparr>))\<rparr>"
    using Cons.IH[of "w\<lparr>lastModified := m\<rparr>"] .
  then show ?case using m by simp
qed

lemma check_visit_first_seen:
  "lastModified w (we_path e) = None \<Longrightarrow> fst (check_visit sys e w) = []"
  by (simp add: check_visit_def split: sum.splits)

lemma checkForChanges_known_file:
  assumes "isSonicPiFile p"
    and "lastModified w p = Some t0"
    and "distinct (map we_path (WalkDir sys (fw_workspacePath w)))"
    and "WalkEntry p None (Inr t) \<in> set (WalkDir sys (fw_workspacePath w))"
  shows "(t0 < t \<and> fw_callback w \<noteq> None \<longrightarrow>
            events_for p (fst (checkForChanges sys w)) = [createExecutionEvent sys p t]
            \<and> Timestamp (createExecutionEvent sys p t) = t)
    \<and> (t0 < t \<and> fw_callback w = None \<longrightarrow> events_for p (fst (checkForChanges sys w)) = [])
    \<and> (t0 < t \<longrightarrow> lastModified (snd (checkForChanges sys w)) p = Some t)
    \<and> (\<not> t0 < t \<longrightarrow> events_for p (fst (checkForChanges sys w)) = []
          \<and> lastModified (snd (checkForChanges sys w)) p = Some t0)"
proof -
  let ?e = "WalkEntry p None (Inr t)"
  have v: "events_for p (fst (checkForChanges sys w)) = fst (check_visit sys ?e w)"
    "lastModified (snd (checkForChanges sys w)) p = lastModified (snd (check_visit sys ?e w)) p"
    using check_walk_visited[OF assms(3) assms(4), of sys w]
    by (simp_all add: checkForChanges_def)
  show ?thesis
    unfolding v using assms(1,2)
    by (simp add: check_visit_def After_def Let_def createExecutionEvent_fields)
qed

text \<open>Claim C5, as the code has it. Take a file the poller knows from an earlier scan,
  and a tick whose walk visits it and reads its modification time \<open>t\<close> (the walk visits
  no path twice). When \<open>t\<close> is later than the time recorded and the poller holds a
  callback, the tick hands the callback exactly one event for that file, whose timestamp
  is \<open>t\<close>. When \<open>t\<close> is later and the callback is \<^verbatim>\<open>nil\<close>, no event is handed over.
  In both cases \<open>t\<close> is recorded. When \<open>t\<close> is not later, there is no event and the
  recorded time stays.\<close>

theorem checkForChanges_one_event:
  assumes "reachable (Files w)"
    and "lastModified w p = Some t0"
    and "distinct (map we_path (WalkDir sys (fw_workspacePath w)))"
    and "WalkEntry p None (Inr t) \<in> set (WalkDir sys (fw_workspacePath w))"
  shows "(t0 < t \<and> fw_callback w \<noteq> None \<longrightarrow>
            events_for p (fst (checkForChanges sys w)) = [createExecutionEvent sys p t]
            \<and> Timestamp (createExecutionEvent sys p t) = t)
    \<and> (t0 < t \<and> fw_callback w = None \<longrightarrow> events_for p (fst (checkForChanges sys w)) = [])
    \<and> (t0 < t \<longrightarrow> lastModified (snd (checkForChanges sys w)) p = Some t)
    \<and> (\<not> t0 < t \<longrightarrow> events_for p (fst (checkForChanges sys w)) = []
          \<and> lastModified (snd (checkForChanges sys w)) p = Some t0)"
proof -
  have "known_files_relevant w" using reachable_inv[OF assms(1)] by simp
  then have "isSonicPiFile p" using assms(2) by (auto simp: known_files_relevant_def)
  then show ?thesis using assms(2-4) by (rule checkForChanges_known_file)
qed

text \<open>Claim C6. On a tick, a file that is not in the recorded map when the tick starts
  gets no event, and its modification time is recorded when the walk reads it. The
  initial scan records the time of every relevant file the walk reads and changes
  nothing else of the poller; \<^verbatim>\<open>scanWorkspaceFiles\<close> has no call of the callback, so the
  model of the scan has no events to give.\<close>

theorem first_observation_emits_nothing:
  assumes "distinct (map we_path (WalkDir sys (fw_workspacePath w)))"
  shows "(lastModified w p = None \<longrightarrow> events_for p (fst (checkForChanges sys w)) = [])
    \<and> (lastModified w p = None \<and> isSonicPiFile p
          \<and> WalkEntry p None (Inr t) \<in> set (WalkDir sys (fw_workspacePath w)) \<longrightarrow>
          lastModified (snd (checkForChanges sys w)) p = Some t)
    \<and> (isSonicPiFile p \<and> WalkEntry p None (Inr t) \<in> set (WalkDir sys (fw_workspacePath w)) \<longrightarrow>
          lastModified (scanWorkspaceFiles sys w) p = Some t)
    \<and> scanWorkspaceFiles sys w = w\<lparr>lastModified := lastModified (scanWorkspaceFiles sys w)\<rparr>"
proof -
  let ?walk = "WalkDir sys (fw_workspacePath w)"
  have A: "events_for p (fst (checkForChanges sys w)) = []" if n: "lastModified w p = None"
  proof (cases "p \<in> we_path ` set ?walk")
    case False
    then show ?thesis using check_walk_not_visited[of p ?walk sys w] by (simp add: checkForChanges_def)
  next
    case True
    then obtain e where e: "e \<in> set ?walk" "we_path e = p" by auto
    then have "events_for p (fst (check_walk sys ?walk w)) = fst (check_visit sys e w)"
      using check_walk_visited[OF assms e(1), of sys w] by simp
    then show ?thesis using check_visit_first_seen[of w e sys] e n by (simp add: checkForChanges_def)
  qed
  have B: "lastModified (snd (checkForChanges sys w)) p = Some t"
    if "lastModified w p = None" "isSonicPiFile p" "WalkEntry p None (Inr t) \<in> set ?walk"
  proof -
    have "lastModified (snd (check_walk sys ?walk w)) p
          = lastModified (snd (check_visit sys (WalkEntry p None (Inr t)) w)) p"
      using check_walk_visited[OF assms that(3), of sys w] by simp
    then show ?thesis using that(1,2) by (simp add: checkForChanges_def check_visit_def)
  qed
  have C: "lastModified (scanWorkspaceFiles sys w) p = Some t"
    if "isSonicPiFile p" "WalkEntry p None (Inr t) \<in> set ?walk"
    using scan_walk_visited[OF assms that(2) that(1)] by (simp add: scanWorkspaceFiles_def)
  have D: "scanWorkspaceFiles sys w = w\<lparr>lastModified := lastModified (scanWorkspaceFiles sys w)\<rparr>"
    unfolding scanWorkspaceFiles_def by (rule scan_walk_only_lastModified)
  show ?thesis using A B C D by blast
qed

lemma relevant_examples:
  "isSonicPiFile ''/ws/a.rb''" "isSonicPiFile ''/ws/buffer_1''"
  "\<not> isSonicPiFile ''/ws/notes.txt''" "\<not> isSonicPiFile ''/ws''"
  by (simp_all add: isSonicPiFile_def Base_def matches_prefix_digits_def HasSuffix_def
      suffix_def isDigit_def byte_def Let_def list_all_iff)

lemma walk_examples:
  "WalkDir sys_scan root =
     [WalkEntry ''/ws'' None (Inr 50), WalkEntry ''/ws/a.rb'' None (Inr 100),
      WalkEntry ''/ws/notes.txt'' None (Inr 100)]"
  "WalkDir sys_tick root =
     [WalkEntry ''/ws'' None (Inr 50), WalkEntry ''/ws/a.rb'' None (Inr 200),
      WalkEntry ''/ws/buffer_1'' None (Inr 150), WalkEntry ''/ws/notes.txt'' None (Inr 300)]"
  by (simp_all add: sys_scan_def sys_tick_def sys_ok_def)

lemma polling_fields:
  "fw_workspacePath (polling callback) = ''/ws''"
  "fw_callback (polling callback) = callback"
  "fw_running (polling callback)"
  "lastModified (polling callback) = [''/ws/a.rb'' \<mapsto> 100]"
proof -
  have p: "PathExists sys_scan ''/ws''" by (simp add: sys_scan_def sys_ok_def)
  show "fw_workspacePath (polling callback) = ''/ws''"
    "fw_callback (polling callback) = callback"
    "fw_running (polling callback)"
    "lastModified (polling callback) = [''/ws/a.rb'' \<mapsto> 100]"
    by (simp_all add: polling_def FileWatcher_Start_def NewFileWatcher_def p
        scanWorkspaceFiles_def walk_examples scan_visit_def relevant_examples)
qed

lemma polling_reachable: "reachable (Files (polling callback))"
proof -
  have "reachable (Files (NewFileWatcher ''/ws'') :: nat watcher)"
    by (intro reachable.intros constructed.intros)
  then have "reachable (apply_op (OpStart sys_scan callback) (Files (NewFileWatcher ''/ws'')))"
    by (rule reachable.intros)
  then show ?thesis by (simp add: polling_def)
qed

text \<open>A workspace with \<^verbatim>\<open>a.rb\<close> at time 100 when the poller starts and at time 200 on
  the tick.\<close>

theorem checkForChanges_one_event_witness:
  "reachable (Files (polling (Some 0)))
   \<and> lastModified (polling (Some 0)) ''/ws/a.rb'' = Some 100
   \<and> WalkEntry ''/ws/a.rb'' None (Inr 200) \<in> set (WalkDir sys_tick ''/ws'')
   \<and> events_for ''/ws/a.rb'' (fst (checkForChanges sys_tick (polling (Some 0))))
       = [createExecutionEvent sys_tick ''/ws/a.rb'' 200]
   \<and> Timestamp (createExecutionEvent sys_tick ''/ws/a.rb'' 200) = 200
   \<and> lastModified (snd (checkForChanges sys_tick (polling (Some 0)))) ''/ws/a.rb'' = Some 200
   \<and> events_for ''/ws/a.rb'' (fst (checkForChanges sys_scan (polling (Some 0)))) = []
   \<and> events_for ''/ws/a.rb'' (fst (checkForChanges sys_tick (polling None))) = []"
proof -
  have d: "distinct (map we_path (WalkDir sys_tick (fw_workspacePath (polling c))))"
    "distinct (map we_path (WalkDir sys_scan (fw_workspacePath (polling c))))" for c
    by (simp_all add: walk_examples)
  have k: "lastModified (polling c) ''/ws/a.rb'' = Some 100" for c
    by (simp add: polling_fields)
  have m: "WalkEntry ''/ws/a.rb'' None (Inr 200) \<in> set (WalkDir sys_tick (fw_workspacePath (polling c)))"
    "WalkEntry ''/ws/a.rb'' None (Inr 100) \<in> set (WalkDir sys_scan (fw_workspacePath (polling c)))" for c
    by (simp_all add: walk_examples)
  show ?thesis
    using checkForChanges_one_event[OF polling_reachable k d(1) m(1), of "Some 0"]
      checkForChanges_one_event[OF polling_reachable k d(2) m(2), of "Some 0"]
      checkForChanges_one_event[OF polling_reachable k d(1) m(1), of None]
      polling_reachable[of "Some 0"] k[of "Some 0"] m(1)[of "Some 0"]
    by (simp add: polling_fields)
qed

lemma tick_without_callback: "fst (checkForChanges sys_tick (polling None)) = []"
  by (simp add: checkForChanges_def polling_fields walk_examples check_visit_def
      relevant_examples After_def Let_def)

text \<open>Claim C5 as stated fails for a poller started with a \<^verbatim>\<open>nil\<close> callback: the file is
  known, its time has advanced, and the tick emits nothing.\<close>

theorem checkForChanges_nil_callback_counterexample:
  "lastModified (polling None) ''/ws/a.rb'' = Some 100
   \<and> WalkEntry ''/ws/a.rb'' None (Inr 200) \<in> set (WalkDir sys_tick (fw_workspacePath (polling None)))
   \<and> (100::int) < 200
   \<and> fst (checkForChanges sys_tick (polling None)) = []"
  by (simp add: tick_without_callback polling_fields walk_examples)

text \<open>\<^verbatim>\<open>buffer_1\<close> appears on the tick: recorded, no event.\<close>

theorem first_observation_emits_nothing_witness:
  "distinct (map we_path (WalkDir sys_tick (fw_workspacePath (polling (Some 0)))))
   \<and> lastModified (polling (Some 0)) ''/ws/buffer_1'' = None
   \<and> events_for ''/ws/buffer_1'' (fst (checkForChanges sys_tick (polling (Some 0)))) = []
   \<and> lastModified (snd (checkForChanges sys_tick (polling (Some 0)))) ''/ws/buffer_1'' = Some 150
   \<and> lastModified (scanWorkspaceFiles sys_scan (NewFileWatcher ''/ws'')) ''/ws/a.rb'' = Some 100"
proof -
  have d: "distinct (map we_path (WalkDir sys_tick (fw_workspacePath (polling (Some 0)))))"
    by (simp add: walk_examples)
  have d2: "distinct (map we_path (WalkDir sys_scan (fw_workspacePath (NewFileWatcher ''/ws''))))"
    by (simp add: walk_examples)
  have n: "lastModified (polling (Some 0)) ''/ws/buffer_1'' = None"
    by (simp add: polling_fields)
  have m: "WalkEntry ''/ws/buffer_1'' None (Inr 150)
             \<in> set (WalkDir sys_tick (fw_workspacePath (polling (Some 0))))"
    "WalkEntry ''/ws/a.rb'' None (Inr 100)
             \<in> set (WalkDir sys_scan (fw_workspacePath (NewFileWatcher ''/ws'')))"
    by (simp_all add: walk_examples)
  have "events_for ''/ws/buffer_1'' (fst (checkForChanges sys_tick (polling (Some 0)))) = []
      \<and> lastModified (snd (checkForChanges sys_tick (polling (Some 0)))) ''/ws/buffer_1''
          = Some 150"
    using first_observation_emits_nothing[OF d, of "''/ws/buffer_1''" 150] n m(1)
      relevant_examples(2) by blast
  moreover have "lastModified (scanWorkspaceFiles sys_scan (NewFileWatcher ''/ws'')) ''/ws/a.rb''
      = Some 100"
    using first_observation_emits_nothing[OF d2, of "''/ws/a.rb''" 100] m(2)
      relevant_examples(1) by blast
  ultimately show ?thesis using d n by blast
qed

lemma filter_takeWhile_split:
  "filter P xs = k # r \<Longrightarrow> \<exists>rest. xs = takeWhile (\<lambda>x. \<not> P x) xs @ k # rest"
proof (induction xs)
  case Nil
  then show ?case by simp
next
  case (Cons x xs)
  then show ?case by (cases "P x") auto
qed

lemma all_enabled_start_calls:
  assumes "\<forall>name \<in> set order. enabled_in I ws name"
  shows "start_calls I cb ws order
           = takeWhile (\<lambda>name. \<not> start_fails I cb ws name) order
             @ (case first_start_failure I cb ws order of None \<Rightarrow> [] | Some name \<Rightarrow> [name])"
proof -
  have "set (takeWhile (\<lambda>name. \<not> start_fails I cb ws name) order) \<subseteq> set order"
    by (meson set_takeWhileD subsetI)
  then have "filter (enabled_in I ws) (takeWhile (\<lambda>name. \<not> start_fails I cb ws name) order)
             = takeWhile (\<lambda>name. \<not> start_fails I cb ws name) order"
    using assms by (intro filter_True) auto
  then show ?thesis by (simp add: start_calls_def)
qed

lemma all_enabled_prefix:
  assumes "\<forall>name \<in> set order. enabled_in I ws name"
  shows "prefix (start_calls I cb ws order) order
    \<and> (first_start_failure I cb ws order = None \<longrightarrow> start_calls I cb ws order = order)
    \<and> (\<forall>k. first_start_failure I cb ws order = Some k \<longrightarrow>
          start_calls I cb ws order \<noteq> [] \<and> last (start_calls I cb ws order) = k)"
proof (cases "filter (start_fails I cb ws) order")
  case Nil
  then have "\<forall>n \<in> set order. \<not> start_fails I cb ws n" by (simp add: filter_empty_conv)
  then have ta: "takeWhile (\<lambda>n. \<not> start_fails I cb ws n) order = order"
    by (simp add: takeWhile_eq_all_conv)
  have nf: "first_start_failure I cb ws order = None" using Nil by (simp add: first_start_failure_def)
  show ?thesis unfolding all_enabled_start_calls[OF assms] nf ta by simp
next
  case (Cons k r)
  then obtain rest where o: "order = takeWhile (\<lambda>x. \<not> start_fails I cb ws x) order @ k # rest"
    using filter_takeWhile_split by fastforce
  have ff: "first_start_failure I cb ws order = Some k" using Cons by (simp add: first_start_failure_def)
  have c: "start_calls I cb ws order = takeWhile (\<lambda>x. \<not> start_fails I cb ws x) order @ [k]"
    unfolding all_enabled_start_calls[OF assms] ff by simp
  have "prefix (takeWhile (\<lambda>x. \<not> start_fails I cb ws x) order @ [k])
          (takeWhile (\<lambda>x. \<not> start_fails I cb ws x) order @ k # rest)"
    by simp
  then have "prefix (start_calls I cb ws order) order" using c o by metis
  then show ?thesis using c ff by simp
qed

text \<open>Claim C9, as the code has it. The configuration of every watcher a constructor
  built is enabled, and stays so under every operation. So, with a callback set,
  \<^verbatim>\<open>StartAll\<close> skips no registered watcher: it calls \<^verbatim>\<open>Start\<close> on them in the order of
  the loop, on all of them when it returns no error, and otherwise up to the first one
  whose \<^verbatim>\<open>Start\<close> fails. The config manager has no part in it.\<close>

theorem StartAll_concrete_watchers:
  assumes "\<forall>name w. watchers (manager ws) name = Some w \<longrightarrow> reachable w"
    and "map_range (watchers (manager ws)) order"
    and "wm_callback (manager ws) \<noteq> None"
    and "StartAll (concrete sys) order (manager ws) = (err, wm', calls)"
  shows "(reachable w0 \<longrightarrow>
            Enabled (watcher_GetConfig w0) \<and> Enabled (watcher_GetConfig (apply_op op w0)))
    \<and> (\<forall>name \<in> set order. enabled_in (concrete sys) (watchers (manager ws)) name)
    \<and> prefix calls order
    \<and> (err = None \<longrightarrow> calls = order)
    \<and> (err \<noteq> None \<longrightarrow> calls \<noteq> []
          \<and> start_fails (concrete sys) (wm_callback (manager ws)) (watchers (manager ws))
               (last calls))
    \<and> StartAll (concrete sys) order (manager (ws\<lparr>configManager := cm\<rparr>))
        = StartAll (concrete sys) order (manager ws)"
proof -
  let ?I = "concrete sys :: ('a watcher, 'a) ExecutionWatcher"
  let ?ws = "watchers (manager ws)"
  let ?cb = "wm_callback (manager ws)"
  have A: "Enabled (watcher_GetConfig w0) \<and> Enabled (watcher_GetConfig (apply_op op w0))"
    if "reachable w0"
    using that reachable_Enabled reachable.intros(2) by blast
  have s: "set order = dom ?ws" using assms(2) by (simp add: map_range_def)
  have en: "\<forall>name \<in> set order. enabled_in ?I ?ws name"
  proof
    fix name assume "name \<in> set order"
    then obtain w where w: "?ws name = Some w" using s by (auto simp: dom_def)
    then have "Enabled (watcher_GetConfig w)" using assms(1) reachable_Enabled by blast
    then show "enabled_in ?I ?ws name" using w by (simp add: enabled_in_def concrete_def)
  qed
  note R = StartAll_result[OF assms(2) assms(4)]
  have c: "calls = start_calls ?I ?cb ?ws order" using R assms(3) by blast
  have e: "err = (case first_start_failure ?I ?cb ?ws order of None \<Rightarrow> None
                  | Some name \<Rightarrow> start_error ?I ?cb ?ws name)"
    using R assms(3) by blast
  note P = all_enabled_prefix[OF en, of ?cb]
  have B: "prefix calls order" using P c by simp
  have C: "calls = order" if "err = None"
  proof -
    have "first_start_failure ?I ?cb ?ws order = None"
    proof (rule ccontr)
      assume "first_start_failure ?I ?cb ?ws order \<noteq> None"
      then obtain k where k: "first_start_failure ?I ?cb ?ws order = Some k" by blast
      then have "start_fails ?I ?cb ?ws k" using first_start_failure_Some by blast
      then have "start_error ?I ?cb ?ws k \<noteq> None"
        by (auto simp: start_fails_def start_error_def split: option.splits)
      then show False using e k that by simp
    qed
    then show ?thesis using P c by simp
  qed
  have D: "calls \<noteq> [] \<and> start_fails ?I ?cb ?ws (last calls)" if "err \<noteq> None"
  proof -
    have "first_start_failure ?I ?cb ?ws order \<noteq> None"
      using e that by (cases "first_start_failure ?I ?cb ?ws order") simp_all
    then obtain k where k: "first_start_failure ?I ?cb ?ws order = Some k" by blast
    then have "start_fails ?I ?cb ?ws k" using first_start_failure_Some by blast
    then show ?thesis using P c k by simp
  qed
  have E: "StartAll ?I order (manager (ws\<lparr>configManager := cm\<rparr>)) = StartAll ?I order (manager ws)"
    by simp
  show ?thesis using A en B C D E by blast
qed

lemma default_service_manager:
  "watchers (manager default_service) =
     [''sonicpi-osc'' \<mapsto> OSC (NewOSCWatcher 4559 []), ''tidal-ghci'' \<mapsto> GHCi NewGHCiWatcher]"
  "wm_callback (manager default_service) = Some 0"
  by (simp_all add: default_service_def NewWatcherService_def NewConfigManager_def
      DefaultGlobalConfig_def registerWatchers_def RegisterWatcher_def SetCallback_def
      NewWatcherManager_def createSonicPiOSCWatcher_def createSonicPiFileWatcher_def
      createTidalGHCiWatcher_def option_or_empty_def fun_upd_twist)

lemma default_service_none_enabled:
  "GetEnabledWatchers [''sonicpi-osc'', ''sonicpi-files'', ''tidal-ghci'']
     (configManager default_service) = []"
  by (simp add: default_service_def NewWatcherService_def NewConfigManager_def
      DefaultGlobalConfig_def registerWatchers_def GetEnabledWatchers_def)

text \<open>The service with the default configuration: no watcher is enabled in the config
  manager, and \<^verbatim>\<open>StartAll\<close> starts the two registered ones.\<close>

theorem StartAll_concrete_watchers_witness:
  "map_range (watchers (manager default_service)) [''sonicpi-osc'', ''tidal-ghci'']
   \<and> wm_callback (manager default_service) \<noteq> None
   \<and> GetEnabledWatchers [''sonicpi-osc'', ''sonicpi-files'', ''tidal-ghci'']
        (configManager default_service) = []
   \<and> fst (StartAll (concrete sys_ok) [''sonicpi-osc'', ''tidal-ghci'']
            (manager default_service)) = None
   \<and> snd (snd (StartAll (concrete sys_ok) [''sonicpi-osc'', ''tidal-ghci'']
            (manager default_service))) = [''sonicpi-osc'', ''tidal-ghci'']
   \<and> fst (StartAll (concrete sys_busy) [''sonicpi-osc'', ''tidal-ghci'']
            (manager default_service)) \<noteq> None
   \<and> snd (snd (StartAll (concrete sys_busy) [''sonicpi-osc'', ''tidal-ghci'']
            (manager default_service))) \<noteq> []
   \<and> prefix (snd (snd (StartAll (concrete sys_busy) [''sonicpi-osc'', ''tidal-ghci'']
            (manager default_service)))) [''sonicpi-osc'', ''tidal-ghci'']
   \<and> Enabled (watcher_GetConfig (apply_op (OpSetPollInterval sys_ok 5)
        (Files (polling (Some 0)))))"
proof -
  let ?order = "[''sonicpi-osc'', ''tidal-ghci'']"
  let ?I = "concrete sys_ok :: (nat watcher, nat) ExecutionWatcher"
  let ?J = "concrete sys_busy :: (nat watcher, nat) ExecutionWatcher"
  have reg: "\<forall>name w. watchers (manager default_service) name = Some w \<longrightarrow> reachable w"
    unfolding default_service_manager
    by (auto intro: reachable.intros constructed.intros split: if_splits)
  have h: "map_range (watchers (manager default_service)) ?order"
    unfolding default_service_manager by (auto simp: map_range_def dom_def)
  have cb: "wm_callback (manager default_service) \<noteq> None"
    by (simp add: default_service_manager)
  obtain err wm' calls where r: "StartAll ?I ?order (manager default_service) = (err, wm', calls)"
    by (cases "StartAll ?I ?order (manager default_service)")
  obtain err2 wm2 calls2 where
    r2: "StartAll ?J ?order (manager default_service) = (err2, wm2, calls2)"
    by (cases "StartAll ?J ?order (manager default_service)")
  have ok: "err = None"
    using r
    by (simp add: StartAll_def default_service_manager concrete_def OSCWatcher_GetConfig_def
        GHCiWatcher_GetConfig_def NewOSCWatcher_def NewGHCiWatcher_def OSCWatcher_Start_def
        GHCiWatcher_Start_def sys_ok_def option_or_empty_def split: prod.splits)
  have bad: "err2 \<noteq> None"
    using r2
    by (auto simp add: StartAll_def default_service_manager concrete_def OSCWatcher_GetConfig_def
        GHCiWatcher_GetConfig_def NewOSCWatcher_def NewGHCiWatcher_def OSCWatcher_Start_def
        GHCiWatcher_Start_def sys_ok_def sys_busy_def option_or_empty_def split: prod.splits)
  note T = StartAll_concrete_watchers[OF reg h cb r,
      of "Files (polling (Some 0))" "OpSetPollInterval sys_ok 5" "configManager default_service"]
  note T2 = StartAll_concrete_watchers[OF reg h cb r2,
      of "Files (polling (Some 0))" "OpSetPollInterval sys_ok 5" "configManager default_service"]
  have "calls = ?order" using T ok by blast
  moreover have "calls2 \<noteq> [] \<and> prefix calls2 ?order" using T2 bad by blast
  moreover have "Enabled (watcher_GetConfig (apply_op (OpSetPollInterval sys_ok 5)
        (Files (polling (Some 0)))))"
    using T polling_reachable[of "Some 0"] by blast
  ultimately show ?thesis
    using h cb r r2 ok bad default_service_none_enabled by simp
qed

text \<open>Claim C9 as stated fails: when the first \<^verbatim>\<open>Start\<close> fails, \<^verbatim>\<open>StartAll\<close> does not
  attempt the other registered watcher, in either order of the loop.\<close>

theorem StartAll_concrete_stops_at_failure_counterexample:
  "watchers (manager default_service) ''tidal-ghci'' = Some (GHCi NewGHCiWatcher)
   \<and> watchers (manager default_service) ''sonicpi-osc'' = Some (OSC (NewOSCWatcher 4559 []))
   \<and> wm_callback (manager default_service) = Some 0
   \<and> snd (snd (StartAll (concrete sys_busy) [''sonicpi-osc'', ''tidal-ghci'']
            (manager default_service))) = [''sonicpi-osc'']
   \<and> snd (snd (StartAll (concrete sys_busy) [''tidal-ghci'', ''sonicpi-osc'']
            (manager default_service))) = [''tidal-ghci'']"
  by (simp add: StartAll_def default_service_manager concrete_def OSCWatcher_GetConfig_def
        GHCiWatcher_GetConfig_def NewOSCWatcher_def NewGHCiWatcher_def OSCWatcher_Start_def
        GHCiWatcher_Start_def sys_ok_def sys_busy_def option_or_empty_def)

end
